theory Spec2Isabelle
  imports Complex_Main "HOL-Library.Sublist" "HOL-Library.AList"
begin

section \<open>Python strings\<close>

text \<open>
  A Python \<^verbatim>\<open>str\<close> is a sequence of Unicode code points; it is modelled as the list of
  the integers \<^verbatim>\<open>ord\<close> gives, so that \<^verbatim>\<open>len\<close> is \<open>length\<close> and the ellipsis U+2026
  that \<^verbatim>\<open>clean_exa_text\<close> appends is one element. \<open>lit\<close> turns an ASCII literal into
  its code points.
\<close>

type_synonym str = "int list"

definition lit :: "string \<Rightarrow> str" where
  "lit s = map of_char s"

text \<open>Truthiness of an optional string: \<^verbatim>\<open>None\<close> and \<^verbatim>\<open>""\<close> are falsy.\<close>

fun truthy :: "str option \<Rightarrow> bool" where
  "truthy None = False"
| "truthy (Some s) = (s \<noteq> [])"

text \<open>\<^verbatim>\<open>sub in s\<close> for strings: \<open>sub\<close> occurs in \<open>s\<close> as a contiguous run.\<close>

fun contains :: "str \<Rightarrow> str \<Rightarrow> bool" where
  "contains sub [] = (sub = [])"
| "contains sub (c # cs) = (prefix sub (c # cs) \<or> contains sub cs)"

text \<open>
  \<^verbatim>\<open>str.lower\<close> on the ASCII letters. Python also lowercases letters outside ASCII;
  those code points are left as they are here. The prompt builder and the parser only
  look for ASCII words in the lowercased text; the fuser, which compares whole titles,
  takes \<^verbatim>\<open>str.lower\<close> as a parameter instead.
\<close>

definition lower_char :: "int \<Rightarrow> int" where
  "lower_char c = (if 65 \<le> c \<and> c \<le> 90 then c + 32 else c)"

definition lower :: "str \<Rightarrow> str" where
  "lower s = map lower_char s"

text \<open>\<^verbatim>\<open>sep.join(xs)\<close>.\<close>

fun join :: "str \<Rightarrow> str list \<Rightarrow> str" where
  "join sep [] = []"
| "join sep [x] = x"
| "join sep (x # y # ys) = x @ sep @ join sep (y # ys)"

text \<open>\<^verbatim>\<open>str(n)\<close> for a non-negative integer: its decimal digits.\<close>

fun str_nat :: "nat \<Rightarrow> str" where
  "str_nat n = (if n < 10 then [48 + int n] else str_nat (n div 10) @ [48 + int (n mod 10)])"

declare str_nat.simps [simp del]

section \<open>Exceptions and outcomes\<close>

text \<open>
  The retry loops tell exceptions apart by the handler that catches them:
  \<^verbatim>\<open>except ValueError\<close> (ValueError and its subclasses), \<^verbatim>\<open>except Exception\<close>
  (every other Exception), and what neither catches (KeyboardInterrupt,
  asyncio.CancelledError and the other direct children of BaseException).
  Each carries its message, \<^verbatim>\<open>str(e)\<close>.
\<close>

datatype exn = ValueError str | OtherException str | NotAnException str

datatype 'a outcome = Return 'a | Raise exn

fun exn_str :: "exn \<Rightarrow> str" where
  "exn_str (ValueError m) = m"
| "exn_str (OtherException m) = m"
| "exn_str (NotAnException m) = m"

text \<open>\<^verbatim>\<open>str(last_error)\<close>, where \<^verbatim>\<open>last_error\<close> starts as \<^verbatim>\<open>None\<close>.\<close>

fun last_error_str :: "exn option \<Rightarrow> str" where
  "last_error_str None = lit ''None''"
| "last_error_str (Some e) = exn_str e"

section \<open>Question generation with retry (question\_generator.py)\<close>

datatype remote_call = SandboxCreate | GetMcpToken | ChatCompletion | SandboxKill

text \<open>
  What a retry loop does besides returning: it starts attempt \<open>k\<close>, the attempt makes
  remote calls, and the loop sleeps for a number of seconds.
\<close>

datatype event = Attempt nat | Remote remote_call | Sleep nat

fun is_sleep :: "event \<Rightarrow> bool" where
  "is_sleep (Sleep n) = True"
| "is_sleep (Attempt k) = False"
| "is_sleep (Remote c) = False"

definition MAX_RETRIES_QG :: nat where
  "MAX_RETRIES_QG = 4"

text \<open>
  \<^verbatim>\<open>generate_questions_with_retry\<close>. The single attempt
  \<^verbatim>\<open>call_openai_with_validation\<close> talks to a remote service, so its outcome at
  attempt \<open>k\<close> is given by \<open>call k\<close>. The \<^verbatim>\<open>for attempt in range(1, MAX_RETRIES + 1)\<close>
  loop is the recursion over the list of attempt numbers; the events so far are
  threaded through.
\<close>

fun qg_loop ::
  "(nat \<Rightarrow> 'q outcome) \<Rightarrow> nat list \<Rightarrow> exn option \<Rightarrow> event list \<Rightarrow> 'q outcome \<times> event list"
where
  "qg_loop call [] last_error tr =
     (Raise (OtherException
        (lit ''Question generation failed after '' @ str_nat MAX_RETRIES_QG
         @ lit '' attempts. Last error: '' @ last_error_str last_error)), tr)"
| "qg_loop call (attempt # rest) last_error tr =
     (case call attempt of
        Return questions \<Rightarrow> (Return questions, tr @ [Attempt attempt])
      | Raise (ValueError m) \<Rightarrow>
          (Raise (ValueError (lit ''Question generation failed: '' @ m)), tr @ [Attempt attempt])
      | Raise (OtherException m) \<Rightarrow>
          qg_loop call rest (Some (OtherException m))
            (if attempt < MAX_RETRIES_QG
             then tr @ [Attempt attempt, Sleep (2 ^ (attempt - 1))]
             else tr @ [Attempt attempt])
      | Raise (NotAnException m) \<Rightarrow> (Raise (NotAnException m), tr @ [Attempt attempt]))"

definition generate_questions_with_retry :: "(nat \<Rightarrow> 'q outcome) \<Rightarrow> 'q outcome \<times> event list" where
  "generate_questions_with_retry call = qg_loop call [1 ..< MAX_RETRIES_QG + 1] None []"

section \<open>The search prompt (search\_service.py, build\_search\_prompt)\<close>

record question =
  q_id :: str
  q_text :: str
  q_answers :: "str list"

text \<open>
  \<^verbatim>\<open>questions_map = {q["id"]: q["text"] for q in questions}\<close>: a later question with
  the same id replaces an earlier one. \<^verbatim>\<open>questions_map.get(q_id, q_id)\<close> falls back
  to the id.
\<close>

definition questions_map :: "question list \<Rightarrow> str \<rightharpoonup> str" where
  "questions_map questions = map_of (rev (map (\<lambda>q. (q_id q, q_text q)) questions))"

definition answer_line :: "question list \<Rightarrow> str \<times> str \<Rightarrow> str" where
  "answer_line questions qa =
     lit ''- '' @ (case questions_map questions (fst qa) of None \<Rightarrow> fst qa | Some t \<Rightarrow> t)
     @ lit '': '' @ snd qa"

definition answers_text :: "(str \<times> str) list \<Rightarrow> question list \<Rightarrow> str" where
  "answers_text user_answers questions = join [10] (map (answer_line questions) user_answers)"

definition prompt_head :: "str \<Rightarrow> (str \<times> str) list \<Rightarrow> question list \<Rightarrow> str" where
  "prompt_head user_query user_answers questions =
     lit ''User wants: '' @ user_query @ [10, 10] @ lit ''User Preferences:'' @ [10]
     @ answers_text user_answers questions @ [10, 10]
     @ lit ''Please search for relevant products and provide recommendations based on these preferences.''
     @ [10]"

definition ranking_directive :: str where
  "ranking_directive = [10] @ lit ''Return the top results ranked by relevance and quality.''"

definition exclusion_directive :: str where
  "exclusion_directive = [10] @ lit ''Exclude items the user has already purchased or watched.''"

definition history_hint :: "str \<Rightarrow> str" where
  "history_hint user_id =
     [10] @ lit ''User ID: '' @ user_id @ lit '' (check purchase/watch history if available)''"

definition closing_instruction :: str where
  "closing_instruction =
     [10, 10] @ lit ''Provide a clear, structured list of recommendations with titles, descriptions, and relevant details.''"

definition ranking_language :: "str \<Rightarrow> bool" where
  "ranking_language user_query \<longleftrightarrow>
     contains (lit ''top'') (lower user_query) \<or> contains (lit ''best'') (lower user_query)"

definition negation_language :: "str \<Rightarrow> bool" where
  "negation_language user_query \<longleftrightarrow>
     contains (lit ''haven't'') (lower user_query) \<or> contains (lit ''didn't'') (lower user_query)
     \<or> contains (lit ''not'') (lower user_query)"

definition build_search_prompt ::
  "str \<Rightarrow> (str \<times> str) list \<Rightarrow> question list \<Rightarrow> str option \<Rightarrow> str" where
  "build_search_prompt user_query user_answers questions user_id =
     (let prompt = prompt_head user_query user_answers questions;
          prompt = (if ranking_language user_query then prompt @ ranking_directive else prompt);
          prompt = (if negation_language user_query
                    then (let prompt = prompt @ exclusion_directive
                          in if truthy user_id then prompt @ history_hint (the user_id) else prompt)
                    else prompt)
      in prompt @ closing_instruction)"

section \<open>Data model of the search service\<close>

text \<open>
  What \<^verbatim>\<open>json.loads\<close> returns. A finite float is the rational it denotes; NaN and
  the infinities are left out. An object is its items in insertion order.
\<close>

datatype json =
    JNull | JBool bool | JInt int | JFloat rat | JStr str
  | JArr "json list" | JObj "(str \<times> json) list"

text \<open>
  A recommendation record as the text paths of \<^verbatim>\<open>parse_response\<close> and the fuser
  build it: a dict over a fixed set of keys. \<open>None\<close> is an absent key, \<open>Some s\<close> a
  key that is present with value \<open>s\<close> (possibly the empty string).
\<close>

record result =
  title :: "str option"
  description :: "str option"
  url :: "str option"
  image_url :: "str option"
  highlights :: "str list option"
  why_matches :: "str option"
  additional_info :: "str option"
  relevance :: "rat option"

definition empty_result :: result where
  "empty_result = \<lparr>title = None, description = None, url = None, image_url = None,
     highlights = None, why_matches = None, additional_info = None, relevance = None\<rparr>"

text \<open>A dict is truthy when it has a key.\<close>

definition dict_nonempty :: "result \<Rightarrow> bool" where
  "dict_nonempty r \<longleftrightarrow>
     title r \<noteq> None \<or> description r \<noteq> None \<or> url r \<noteq> None \<or> image_url r \<noteq> None
     \<or> highlights r \<noteq> None \<or> why_matches r \<noteq> None \<or> additional_info r \<noteq> None
     \<or> relevance r \<noteq> None"

text \<open>
  What \<^verbatim>\<open>parse_response\<close> returns: the list of records its text paths built, or
  whatever value the embedded JSON held (returned as decoded, of any shape).
\<close>

datatype parsed = Records "result list" | Decoded json

text \<open>The envelope \<^verbatim>\<open>{"success": ..., "results": ..., "error": ...}\<close>.\<close>

record envelope =
  env_success :: bool
  env_results :: parsed
  env_error :: "str option"

section \<open>Search with retry (search\_service.py)\<close>

definition MAX_RETRIES :: nat where
  "MAX_RETRIES = 3"

text \<open>The three credentials \<^verbatim>\<open>os.getenv\<close> reads; \<open>None\<close> is an unset variable.\<close>

record environ =
  E2B_API_KEY :: "str option"
  EXA_API_KEY :: "str option"
  GROQ_API_KEY :: "str option"

text \<open>
  \<^verbatim>\<open>_search_with_e2b_exa_single_attempt\<close>: the credential checks (lines 79-88), the
  prompt (line 91), and then the sandboxed part (lines 93-273), which creates the sandbox,
  calls the model, parses and fuses the reply and kills the sandbox. The sandboxed part
  depends on the remote services: \<open>sandboxed prompt\<close> gives the remote calls it makes and
  how it ends.
\<close>

definition single_attempt ::
  "environ \<Rightarrow> (str \<Rightarrow> remote_call list \<times> envelope outcome) \<Rightarrow>
   str \<Rightarrow> (str \<times> str) list \<Rightarrow> question list \<Rightarrow> str option \<Rightarrow>
   remote_call list \<times> envelope outcome" where
  "single_attempt env sandboxed user_query user_answers questions user_id =
     (if \<not> truthy (E2B_API_KEY env)
      then ([], Raise (ValueError (lit ''E2B_API_KEY environment variable is not set'')))
      else if \<not> truthy (EXA_API_KEY env)
      then ([], Raise (ValueError (lit ''EXA_API_KEY environment variable is not set'')))
      else if \<not> truthy (GROQ_API_KEY env)
      then ([], Raise (ValueError (lit ''GROQ_API_KEY environment variable is not set'')))
      else sandboxed (build_search_prompt user_query user_answers questions user_id))"

definition failure :: "str \<Rightarrow> envelope" where
  "failure message = \<lparr>env_success = False, env_results = Records [], env_error = Some message\<rparr>"

text \<open>
  \<^verbatim>\<open>search_with_e2b_exa\<close>, over the outcome \<open>attempt_op k\<close> of the single attempt
  made at attempt \<open>k\<close> and the remote calls it made.
\<close>

fun search_loop ::
  "(nat \<Rightarrow> remote_call list \<times> envelope outcome) \<Rightarrow> nat list \<Rightarrow> exn option \<Rightarrow> event list \<Rightarrow>
   envelope outcome \<times> event list"
where
  "search_loop attempt_op [] last_error tr =
     (Return (failure (lit ''Search failed after '' @ str_nat MAX_RETRIES
                       @ lit '' attempts. Last error: '' @ last_error_str last_error)), tr)"
| "search_loop attempt_op (attempt # rest) last_error tr =
     (let tr = tr @ Attempt attempt # map Remote (fst (attempt_op attempt)) in
      case snd (attempt_op attempt) of
        Return r \<Rightarrow> (Return r, tr)
      | Raise (ValueError m) \<Rightarrow> (Return (failure (lit ''Configuration error: '' @ m)), tr)
      | Raise (OtherException m) \<Rightarrow>
          search_loop attempt_op rest (Some (OtherException m))
            (if attempt < MAX_RETRIES then tr @ [Sleep (2 ^ attempt)] else tr)
      | Raise (NotAnException m) \<Rightarrow> (Raise (NotAnException m), tr))"

definition search_with_retry ::
  "(nat \<Rightarrow> remote_call list \<times> envelope outcome) \<Rightarrow> envelope outcome \<times> event list" where
  "search_with_retry attempt_op = search_loop attempt_op [1 ..< MAX_RETRIES + 1] None []"

definition search_with_e2b_exa ::
  "environ \<Rightarrow> (nat \<Rightarrow> str \<Rightarrow> remote_call list \<times> envelope outcome) \<Rightarrow>
   str \<Rightarrow> (str \<times> str) list \<Rightarrow> question list \<Rightarrow> str option \<Rightarrow>
   envelope outcome \<times> event list" where
  "search_with_e2b_exa env sandboxed user_query user_answers questions user_id =
     search_with_retry
       (\<lambda>k. single_attempt env (sandboxed k) user_query user_answers questions user_id)"

section \<open>String methods and regular expressions\<close>

text \<open>
  \<^verbatim>\<open>str.isspace\<close> for one code point, which is also what \<^verbatim>\<open>\s\<close> matches in a
  \<^verbatim>\<open>str\<close> pattern and what \<^verbatim>\<open>strip()\<close> and \<^verbatim>\<open>split()\<close> remove: U+0009-000D,
  U+001C-0020, U+0085, U+00A0, U+1680, U+2000-200A, U+2028, U+2029, U+202F, U+205F, U+3000.
\<close>

definition isspace :: "int \<Rightarrow> bool" where
  "isspace c \<longleftrightarrow>
     (9 \<le> c \<and> c \<le> 13) \<or> (28 \<le> c \<and> c \<le> 32) \<or> c = 133 \<or> c = 160 \<or> c = 5760
     \<or> (8192 \<le> c \<and> c \<le> 8202) \<or> c = 8232 \<or> c = 8233 \<or> c = 8239 \<or> c = 8287 \<or> c = 12288"

text \<open>
  \<^verbatim>\<open>str.isdigit\<close> for one code point and \<^verbatim>\<open>\d\<close>, on the ASCII digits. Python
  also accepts the decimal digits of other scripts; they are not modelled.
\<close>

definition isdigit :: "int \<Rightarrow> bool" where
  "isdigit c \<longleftrightarrow> 48 \<le> c \<and> c \<le> 57"

definition lstrip :: "str \<Rightarrow> str" where
  "lstrip s = dropWhile isspace s"

definition rstrip :: "str \<Rightarrow> str" where
  "rstrip s = rev (dropWhile isspace (rev s))"

definition strip :: "str \<Rightarrow> str" where
  "strip s = rstrip (lstrip s)"

text \<open>\<^verbatim>\<open>s.lstrip(chars)\<close> and \<^verbatim>\<open>s.strip(chars)\<close>.\<close>

definition lstrip_chars :: "str \<Rightarrow> str \<Rightarrow> str" where
  "lstrip_chars chars s = dropWhile (\<lambda>c. c \<in> set chars) s"

definition strip_chars :: "str \<Rightarrow> str \<Rightarrow> str" where
  "strip_chars chars s =
     rev (dropWhile (\<lambda>c. c \<in> set chars) (rev (dropWhile (\<lambda>c. c \<in> set chars) s)))"

definition startswith :: "str \<Rightarrow> str \<Rightarrow> bool" where
  "startswith s p = prefix p s"

definition endswith :: "str \<Rightarrow> str \<Rightarrow> bool" where
  "endswith s p = suffix p s"

text \<open>\<^verbatim>\<open>s.find(c)\<close> and \<^verbatim>\<open>s.rfind(c)\<close> for one character; \<open>None\<close> is Python's -1.\<close>

fun find_char :: "int \<Rightarrow> str \<Rightarrow> nat option" where
  "find_char c [] = None"
| "find_char c (x # xs) = (if x = c then Some 0 else map_option Suc (find_char c xs))"

definition rfind_char :: "int \<Rightarrow> str \<Rightarrow> nat option" where
  "rfind_char c s = map_option (\<lambda>i. length s - 1 - i) (find_char c (rev s))"

text \<open>\<^verbatim>\<open>s[a:b]\<close> for \<open>0 \<le> a\<close>, \<open>0 \<le> b\<close>.\<close>

definition slice :: "nat \<Rightarrow> nat \<Rightarrow> str \<Rightarrow> str" where
  "slice a b s = take (b - a) (drop a s)"

text \<open>\<^verbatim>\<open>s.split(c)\<close> for one character: never empty, one piece more than separators.\<close>

fun split_char :: "int \<Rightarrow> str \<Rightarrow> str list" where
  "split_char c [] = [[]]"
| "split_char c (x # xs) =
     (if x = c then [] # split_char c xs
      else (case split_char c xs of [] \<Rightarrow> [[x]] | w # ws \<Rightarrow> (x # w) # ws))"

text \<open>
  \<^verbatim>\<open>s.split(c, 1)\<close>: \<open>before_sep\<close> is element 0; \<open>after_sep\<close> is element 1, which exists
  when \<open>c\<close> occurs in \<open>s\<close> (the only case it is used in).
\<close>

definition before_sep :: "int \<Rightarrow> str \<Rightarrow> str" where
  "before_sep c s = takeWhile (\<lambda>x. x \<noteq> c) s"

definition after_sep :: "int \<Rightarrow> str \<Rightarrow> str" where
  "after_sep c s = tl (dropWhile (\<lambda>x. x \<noteq> c) s)"

text \<open>\<^verbatim>\<open>s.split('**')\<close>: the pieces between the leftmost non-overlapping \<^verbatim>\<open>**\<close>.\<close>

fun split_stars :: "str \<Rightarrow> str \<Rightarrow> str list" where
  "split_stars acc [] = [rev acc]"
| "split_stars acc [x] = [rev (x # acc)]"
| "split_stars acc (x # y # zs) =
     (if x = 42 \<and> y = 42 then rev acc # split_stars [] zs else split_stars (x # acc) (y # zs))"

text \<open>\<^verbatim>\<open>s.split()\<close>: the maximal runs of non-whitespace.\<close>

fun split_ws :: "str \<Rightarrow> str \<Rightarrow> str list" where
  "split_ws acc [] = (if acc = [] then [] else [rev acc])"
| "split_ws acc (c # cs) =
     (if isspace c then (if acc = [] then split_ws [] cs else rev acc # split_ws [] cs)
      else split_ws (c # acc) cs)"

text \<open>
  \<^verbatim>\<open>s.splitlines()\<close>: lines end at \<^verbatim>\<open>\n\<close>, \<^verbatim>\<open>\r\<close>, \<^verbatim>\<open>\r\n\<close>, \<^verbatim>\<open>\v\<close>, \<^verbatim>\<open>\f\<close>,
  U+001C-001E, U+0085, U+2028 and U+2029; there is no empty last line.
\<close>

definition is_linebreak :: "int \<Rightarrow> bool" where
  "is_linebreak c \<longleftrightarrow> (10 \<le> c \<and> c \<le> 13) \<or> (28 \<le> c \<and> c \<le> 30) \<or> c = 133 \<or> c = 8232 \<or> c = 8233"

fun splitlines_from :: "str \<Rightarrow> str \<Rightarrow> str list" where
  "splitlines_from acc [] = (if acc = [] then [] else [rev acc])"
| "splitlines_from acc [c] = (if is_linebreak c then [rev acc] else [rev (c # acc)])"
| "splitlines_from acc (c # d # cs) =
     (if c = 13 \<and> d = 10 then rev acc # splitlines_from [] cs
      else if is_linebreak c then rev acc # splitlines_from [] (d # cs)
      else splitlines_from (c # acc) (d # cs))"

definition splitlines :: "str \<Rightarrow> str list" where
  "splitlines s = splitlines_from [] s"

subsection \<open>Leftmost non-overlapping matches\<close>

text \<open>
  \<^verbatim>\<open>re.sub\<close>, \<^verbatim>\<open>re.findall\<close> and \<^verbatim>\<open>re.split\<close> walk the text from the left: where the
  pattern matches, the match is taken and the walk goes on behind it; elsewhere the
  character is kept and the walk goes on at the next one. A pattern is given by its
  matcher: \<open>m s\<close> is \<open>Some (x, n)\<close> when the pattern matches a prefix of \<open>s\<close> of length
  \<open>n\<close>, with \<open>x\<close> what the caller reads from the match. None of the patterns below matches
  the empty string, so \<open>n \<ge> 1\<close>.
\<close>

datatype 'm tok = Char int | Match 'm

function finditer :: "(str \<Rightarrow> ('m \<times> nat) option) \<Rightarrow> str \<Rightarrow> 'm tok list" where
  "finditer m [] = []"
| "finditer m (c # cs) =
     (case m (c # cs) of
        None \<Rightarrow> Char c # finditer m cs
      | Some (x, n) \<Rightarrow> Match x # finditer m (drop (n - 1) cs))"
  by pat_completeness auto
termination
  by (relation "measure (\<lambda>(m, s). length s)") auto

text \<open>\<^verbatim>\<open>re.sub(pattern, repl, s)\<close>, with \<open>repl\<close> applied to what the match gave.\<close>

fun untok :: "('m \<Rightarrow> str) \<Rightarrow> 'm tok \<Rightarrow> str" where
  "untok repl (Char c) = [c]"
| "untok repl (Match x) = repl x"

definition re_sub :: "(str \<Rightarrow> ('m \<times> nat) option) \<Rightarrow> ('m \<Rightarrow> str) \<Rightarrow> str \<Rightarrow> str" where
  "re_sub m repl s = concat (map (untok repl) (finditer m s))"

text \<open>\<^verbatim>\<open>re.findall(pattern, s)\<close>.\<close>

fun matches :: "'m tok list \<Rightarrow> 'm list" where
  "matches [] = []"
| "matches (Char c # ts) = matches ts"
| "matches (Match x # ts) = x # matches ts"

definition re_findall :: "(str \<Rightarrow> ('m \<times> nat) option) \<Rightarrow> str \<Rightarrow> 'm list" where
  "re_findall m s = matches (finditer m s)"

text \<open>
  \<^verbatim>\<open>re.split(pattern, s)\<close> for a pattern with one group: the text before the first
  match, then for each match its group and the text up to the next match.
\<close>

fun split_toks :: "str \<Rightarrow> str tok list \<Rightarrow> str list" where
  "split_toks acc [] = [rev acc]"
| "split_toks acc (Char c # ts) = split_toks (c # acc) ts"
| "split_toks acc (Match g # ts) = rev acc # g # split_toks [] ts"

definition re_split :: "(str \<Rightarrow> (str \<times> nat) option) \<Rightarrow> str \<Rightarrow> str list" where
  "re_split m s = split_toks [] (finditer m s)"

text \<open>\<^verbatim>\<open>re.search(pattern, s)\<close>: the first position where the pattern matches.\<close>

fun re_search :: "(str \<Rightarrow> ('m \<times> nat) option) \<Rightarrow> str \<Rightarrow> 'm option" where
  "re_search m [] = None"
| "re_search m (c # cs) =
     (case m (c # cs) of None \<Rightarrow> re_search m cs | Some (x, n) \<Rightarrow> Some x)"

subsection \<open>The patterns of search\_service.py\<close>

text \<open>
  Each matcher follows the pattern from the left. The repeated classes are greedy and
  each is followed by something outside the class (or by nothing), so the longest run is
  the only one that can match and there is no backtracking to model.
\<close>

text \<open>\<^verbatim>\<open>https?://\<close>: the scheme at the start of \<open>s\<close>, and what follows it.\<close>

definition scheme_at :: "str \<Rightarrow> (str \<times> str) option" where
  "scheme_at s =
     (if prefix (lit ''https://'') s then Some (lit ''https://'', drop 8 s)
      else if prefix (lit ''http://'') s then Some (lit ''http://'', drop 7 s)
      else None)"

text \<open>\<^verbatim>\<open>https?://[^\s\)]+\<close>; the match is the URL.\<close>

definition url_char :: "int \<Rightarrow> bool" where
  "url_char c \<longleftrightarrow> \<not> isspace c \<and> c \<noteq> 41"

definition m_url :: "str \<Rightarrow> (str \<times> nat) option" where
  "m_url s =
     (case scheme_at s of
        None \<Rightarrow> None
      | Some (scheme, rest) \<Rightarrow>
          (let body = takeWhile url_char rest
           in if body = [] then None else Some (scheme @ body, length scheme + length body)))"

definition findall_urls :: "str \<Rightarrow> str list" where
  "findall_urls s = re_findall m_url s"

text \<open>\<^verbatim>\<open>\]\((https?://[^\)]+)\)\<close>; the match gives group 1.\<close>

definition m_link_target :: "str \<Rightarrow> (str \<times> nat) option" where
  "m_link_target s =
     (if prefix [93, 40] s then
        (case scheme_at (drop 2 s) of
           None \<Rightarrow> None
         | Some (scheme, rest) \<Rightarrow>
             (let body = takeWhile (\<lambda>c. c \<noteq> 41) rest
              in if body \<noteq> [] \<and> prefix [41] (dropWhile (\<lambda>c. c \<noteq> 41) rest)
                 then Some (scheme @ body, 2 + length scheme + length body + 1)
                 else None))
      else None)"

text \<open>\<^verbatim>\<open>\n\s*(\d+)\.\s+\<close>; the match gives group 1.\<close>

definition m_numbered :: "str \<Rightarrow> (str \<times> nat) option" where
  "m_numbered s =
     (if prefix [10] s then
        (let r = drop 1 s;
             ws = takeWhile isspace r; r = dropWhile isspace r;
             digits = takeWhile isdigit r; r = dropWhile isdigit r;
             ws' = takeWhile isspace (drop 1 r)
         in if digits \<noteq> [] \<and> prefix [46] r \<and> ws' \<noteq> []
            then Some (digits, 1 + length ws + length digits + 1 + length ws')
            else None)
      else None)"

text \<open>\<^verbatim>\<open>\*\*([^*]+)\*\*\<close>; the match gives group 1.\<close>

definition m_bold :: "str \<Rightarrow> (str \<times> nat) option" where
  "m_bold s =
     (if prefix [42, 42] s then
        (let body = takeWhile (\<lambda>c. c \<noteq> 42) (drop 2 s)
         in if body \<noteq> [] \<and> prefix [42, 42] (dropWhile (\<lambda>c. c \<noteq> 42) (drop 2 s))
            then Some (body, length body + 4)
            else None)
      else None)"

text \<open>
  \<^verbatim>\<open>re.sub(r'^(Product|Name|Title):?\s*', '', s, flags=re.IGNORECASE)\<close>: the pattern is
  anchored at the start, so at most the one prefix goes. The letters are compared through
  \<open>lower\<close>.
\<close>

definition drop_label_prefix :: "str \<Rightarrow> str" where
  "drop_label_prefix s =
     (let n = (if prefix (lit ''product'') (lower s) then Some 7
               else if prefix (lit ''name'') (lower s) then Some 4
               else if prefix (lit ''title'') (lower s) then Some 5
               else None)
      in case n of
           None \<Rightarrow> s
         | Some k \<Rightarrow>
             (let r = drop k s; r = (if prefix [58] r then drop 1 r else r)
              in dropWhile isspace r))"

text \<open>\<^verbatim>\<open>\[([^\]]+)\]\([^\)]+\)\<close>; the match gives group 1, the link's text.\<close>

definition m_link :: "str \<Rightarrow> (str \<times> nat) option" where
  "m_link s =
     (if prefix [91] s then
        (let label = takeWhile (\<lambda>c. c \<noteq> 93) (drop 1 s);
             r = dropWhile (\<lambda>c. c \<noteq> 93) (drop 1 s);
             target = takeWhile (\<lambda>c. c \<noteq> 41) (drop 2 r)
         in if label \<noteq> [] \<and> prefix [93, 40] r \<and> target \<noteq> []
               \<and> prefix [41] (dropWhile (\<lambda>c. c \<noteq> 41) (drop 2 r))
            then Some (label, 1 + length label + 2 + length target + 1)
            else None)
      else None)"

text \<open>\<^verbatim>\<open>#{1,6}\s*\<close>: up to six hashes and the whitespace behind them.\<close>

definition m_hashes :: "str \<Rightarrow> (unit \<times> nat) option" where
  "m_hashes s =
     (if prefix [35] s then
        (let k = min 6 (length (takeWhile (\<lambda>c. c = 35) s))
         in Some ((), k + length (takeWhile isspace (drop k s))))
      else None)"

text \<open>\<^verbatim>\<open>\s+\<close>.\<close>

definition m_spaces :: "str \<Rightarrow> (unit \<times> nat) option" where
  "m_spaces s =
     (let ws = takeWhile isspace s in if ws = [] then None else Some ((), length ws))"

text \<open>The two characters backslash and \<^verbatim>\<open>n\<close>, for \<^verbatim>\<open>replace('\\n', ' ')\<close>.\<close>

definition m_backslash_n :: "str \<Rightarrow> (unit \<times> nat) option" where
  "m_backslash_n s = (if prefix [92, 110] s then Some ((), 2) else None)"

text \<open>\<^verbatim>\<open>re.match(r'^\d+[\.\)]\s', s)\<close> as a test.\<close>

definition numbered_item :: "str \<Rightarrow> bool" where
  "numbered_item s \<longleftrightarrow>
     (let r = dropWhile isdigit s
      in takeWhile isdigit s \<noteq> []
         \<and> (case r of
              [] \<Rightarrow> False
            | c # r' \<Rightarrow> (c = 46 \<or> c = 41) \<and> (case r' of [] \<Rightarrow> False | d # _ \<Rightarrow> isspace d)))"

section \<open>The text normalizer (clean\_exa\_text, extract\_highlights)\<close>

definition clean_exa_text :: "str option \<Rightarrow> nat \<Rightarrow> str option" where
  "clean_exa_text text max_length =
     (if \<not> truthy text then None
      else
        (let cleaned = re_sub m_link (\<lambda>label. label) (the text);
             cleaned = re_sub m_hashes (\<lambda>_. []) cleaned;
             cleaned = map (\<lambda>c. if c = 42 then 32 else c) cleaned;
             cleaned = re_sub m_backslash_n (\<lambda>_. [32]) cleaned;
             cleaned = strip (re_sub m_spaces (\<lambda>_. [32]) cleaned)
         in if cleaned = [] then None
            else if length cleaned > max_length then
              (let truncated = take max_length cleaned
               in case rfind_char 46 truncated of
                    None \<Rightarrow> Some (strip truncated @ [8230])
                  | Some last_period \<Rightarrow>
                      if last_period > 120 then Some (take (last_period + 1) truncated)
                      else Some (strip truncated @ [8230]))
            else Some cleaned))"

text \<open>
  The loop of \<^verbatim>\<open>extract_highlights\<close> over the lines, with the highlights so far; an
  empty line is skipped before the count is looked at, as \<^verbatim>\<open>continue\<close> does.
\<close>

fun highlight_lines :: "nat \<Rightarrow> str list \<Rightarrow> str list \<Rightarrow> str list" where
  "highlight_lines max_items hs [] = hs"
| "highlight_lines max_items hs (line # rest) =
     (let stripped = strip line in
      if stripped = [] then highlight_lines max_items hs rest
      else
        (let hs = (if startswith stripped [45] \<or> startswith stripped [42] \<or> numbered_item stripped
                   then (case clean_exa_text (Some (lstrip_chars (lit ''-*0123456789. )'') stripped)) 400 of
                           None \<Rightarrow> hs
                         | Some clean_line \<Rightarrow> hs @ [clean_line])
                   else hs)
         in if length hs \<ge> max_items then hs else highlight_lines max_items hs rest))"

definition extract_highlights :: "str \<Rightarrow> nat \<Rightarrow> str list option" where
  "extract_highlights text max_items =
     (if text = [] then None
      else (let hs = highlight_lines max_items [] (splitlines text)
            in if hs = [] then None else Some hs))"

section \<open>The structured-text parser (parse\_response)\<close>

subsection \<open>The line scan\<close>

datatype section_tag =
  SecTitle | SecUrl | SecImageUrl | SecDescription | SecWhyMatches | SecAdditionalInfo

text \<open>The loop state: \<^verbatim>\<open>results\<close>, \<^verbatim>\<open>current_result\<close> and \<^verbatim>\<open>current_section\<close>.\<close>

record scan =
  sc_results :: "result list"
  sc_current :: result
  sc_section :: "section_tag option"

text \<open>
  \<^verbatim>\<open>if current_result and current_result.get("title"): results.append(current_result)\<close>.
\<close>

definition flush :: "result list \<Rightarrow> result \<Rightarrow> result list" where
  "flush rs cur = (if dict_nonempty cur \<and> truthy (title cur) then rs @ [cur] else rs)"

text \<open>
  \<^verbatim>\<open>if key not in d: d[key] = line\<close>, \<^verbatim>\<open>else: d[key] += " " + line\<close>.
\<close>

definition append_field :: "str option \<Rightarrow> str \<Rightarrow> str option" where
  "append_field old line = (case old of None \<Rightarrow> Some line | Some v \<Rightarrow> Some (v @ [32] @ line))"

text \<open>The value after the first colon, as the title branches clean it.\<close>

definition title_value :: "str \<Rightarrow> str" where
  "title_value line = strip (strip_chars [42] (strip (after_sep 58 line)))"

definition image_hint :: "str \<Rightarrow> bool" where
  "image_hint low \<longleftrightarrow>
     contains (lit ''.jpg'') low \<or> contains (lit ''.jpeg'') low \<or> contains (lit ''.png'') low
     \<or> contains (lit ''.gif'') low \<or> contains (lit ''.webp'') low \<or> contains (lit ''image'') low
     \<or> contains (lit ''img'') low"

text \<open>
  One turn of \<^verbatim>\<open>for line in lines\<close> (lines 406-518). In the branches that read
  \<^verbatim>\<open>line.split(':', 1)[1]\<close> the line holds a colon, so \<open>after_sep\<close> is that element.
\<close>

definition scan_line :: "scan \<Rightarrow> str \<Rightarrow> scan" where
  "scan_line st raw_line =
     (let line = strip raw_line; low = lower line; cur = sc_current st in
      if line = [] then st
      else if isdigit (hd line) \<and> (46 \<in> set (take 3 line) \<or> 58 \<in> set (take 3 line)) then
        \<lparr>sc_results = flush (sc_results st) cur,
         sc_current =
           (if 58 \<in> set line then empty_result\<lparr>title := Some (title_value line)\<rparr>
            else if contains [42, 42] line then
              (case split_stars [] line of
                 _ # t # _ \<Rightarrow> empty_result\<lparr>title := Some (strip t)\<rparr>
               | _ \<Rightarrow> empty_result)
            else empty_result),
         sc_section = None\<rparr>
      else if startswith line [42, 42] \<and> endswith line [42, 42] \<and> length line > 4 then
        \<lparr>sc_results = flush (sc_results st) cur,
         sc_current = empty_result\<lparr>title := Some (strip (strip_chars [42] line))\<rparr>,
         sc_section = None\<rparr>
      else if 58 \<in> set line
              \<and> (contains (lit ''product'') low \<or> contains (lit ''name'') low
                   \<or> contains (lit ''title'') low) then
        (if title_value line \<noteq> []
         then st\<lparr>sc_current := cur\<lparr>title := Some (title_value line)\<rparr>, sc_section := Some SecTitle\<rparr>
         else st)
      else if startswith line (lit ''http://'') \<or> startswith line (lit ''https://'') then
        (if image_hint low
         then st\<lparr>sc_current := cur\<lparr>image_url := Some line\<rparr>, sc_section := Some SecUrl\<rparr>
         else st\<lparr>sc_current := cur\<lparr>url := Some line\<rparr>, sc_section := Some SecUrl\<rparr>)
      else if startswith low (lit ''url:'') then
        (let u = strip (after_sep 58 line) in
         st\<lparr>sc_current :=
              (if startswith u (lit ''http'') then cur\<lparr>url := Some u\<rparr>
               else if startswith u [91] \<and> contains [93, 40] u then
                 (case re_search m_link_target u of
                    None \<Rightarrow> cur
                  | Some target \<Rightarrow> cur\<lparr>url := Some target\<rparr>)
               else cur),
            sc_section := Some SecUrl\<rparr>)
      else if startswith low (lit ''image url:'') \<or> startswith low (lit ''image:'') then
        (let u = strip (after_sep 58 line) in
         st\<lparr>sc_current := (if startswith u (lit ''http'') then cur\<lparr>image_url := Some u\<rparr> else cur),
            sc_section := Some SecImageUrl\<rparr>)
      else if startswith low (lit ''description:'') then
        st\<lparr>sc_current := cur\<lparr>description := Some (strip (after_sep 58 line))\<rparr>,
           sc_section := Some SecDescription\<rparr>
      else if contains (lit ''why'') low \<and> contains (lit ''match'') low then
        (let why = (if 58 \<in> set line then strip (after_sep 58 line) else []) in
         st\<lparr>sc_current := (if why \<noteq> [] then cur\<lparr>why_matches := Some why\<rparr> else cur),
            sc_section := Some SecWhyMatches\<rparr>)
      else if contains (lit ''additional'') low \<or> contains (lit ''information'') low then
        (let info = (if 58 \<in> set line then strip (after_sep 58 line) else []) in
         st\<lparr>sc_current :=
              (if info \<noteq> [] then cur\<lparr>additional_info := append_field (additional_info cur) info\<rparr>
               else cur),
            sc_section := Some SecAdditionalInfo\<rparr>)
      else if dict_nonempty cur then
        (if sc_section st = Some SecDescription \<or> (sc_section st = None \<and> description cur = None)
         then st\<lparr>sc_current := cur\<lparr>description := append_field (description cur) line\<rparr>\<rparr>
         else if sc_section st = Some SecWhyMatches
         then st\<lparr>sc_current := cur\<lparr>why_matches := append_field (why_matches cur) line\<rparr>\<rparr>
         else if sc_section st = Some SecAdditionalInfo
         then st\<lparr>sc_current := cur\<lparr>additional_info := append_field (additional_info cur) line\<rparr>\<rparr>
         else st)
      else st)"

text \<open>The whole scan (lines 402-522): every line in turn, then the last record.\<close>

definition scan_lines :: "str \<Rightarrow> result list" where
  "scan_lines content =
     (let st = foldl scan_line
                 \<lparr>sc_results = [], sc_current = empty_result, sc_section = None\<rparr>
                 (split_char 10 content)
      in flush (sc_results st) (sc_current st))"

subsection \<open>The fallbacks\<close>

text \<open>
  \<^verbatim>\<open>for i in range(1, len(numbered_sections), 2): if i + 1 < len(numbered_sections)\<close>
  reads the elements 2, 4, ...: over the list without its first element, the second of
  each pair.
\<close>

fun section_texts :: "str list \<Rightarrow> str list" where
  "section_texts (number # section_text # rest) = section_text # section_texts rest"
| "section_texts [number] = []"
| "section_texts [] = []"

text \<open>The record built from one numbered section (lines 543-574).\<close>

definition fallback_result :: "str \<Rightarrow> result" where
  "fallback_result section_text =
     (let r = (case findall_urls section_text of
                 [] \<Rightarrow> empty_result
               | u # _ \<Rightarrow> empty_result\<lparr>url := Some u\<rparr>);
          lines = split_char 10 section_text;
          first_line = (case lines of [] \<Rightarrow> [] | l # _ \<Rightarrow> strip l);
          r = (if 58 \<in> set first_line then
                 (let title_part = drop_label_prefix (strip (before_sep 58 first_line))
                  in r\<lparr>title := Some (if title_part \<noteq> [] then title_part
                                        else lit ''Product Recommendation'')\<rparr>)
               else
                 (case re_search m_bold first_line of
                    Some bold \<Rightarrow> r\<lparr>title := Some (strip bold)\<rparr>
                  | None \<Rightarrow> r\<lparr>title := Some (if first_line \<noteq> [] then take 100 first_line
                                                else lit ''Product Recommendation'')\<rparr>));
          description_text = join [10] (filter (\<lambda>l. l \<noteq> []) (map strip (tl lines)))
      in if description_text \<noteq> [] then r\<lparr>description := Some (take 500 description_text)\<rparr> else r)"

definition numbered_fallback :: "str list \<Rightarrow> result list" where
  "numbered_fallback numbered_sections =
     filter (\<lambda>r. truthy (title r)) (map fallback_result (section_texts (tl numbered_sections)))"

text \<open>The one record of the last fallback (lines 581-589).\<close>

definition single_fallback :: "str \<Rightarrow> str list \<Rightarrow> result" where
  "single_fallback content all_urls =
     empty_result
       \<lparr>title := Some (case re_search m_bold content of
                         Some product_name \<Rightarrow> product_name
                       | None \<Rightarrow> lit ''Product Recommendation''),
        description := Some (if length content > 500 then take 500 content @ lit ''...''
                             else content),
        url := Some (case all_urls of [] \<Rightarrow> [] | u # _ \<Rightarrow> u),
        relevance := Some 1\<rparr>"

subsection \<open>The final URL pass\<close>

text \<open>
  Lines 593-597, the loop over the results with \<^verbatim>\<open>url_index\<close> threaded through.
\<close>

fun backfill :: "nat \<Rightarrow> str list \<Rightarrow> result list \<Rightarrow> result list" where
  "backfill url_index all_urls [] = []"
| "backfill url_index all_urls (r # rs) =
     (if \<not> truthy (url r) \<and> url_index < length all_urls
      then r\<lparr>url := Some (all_urls ! url_index)\<rparr> # backfill (Suc url_index) all_urls rs
      else r # backfill url_index all_urls rs)"

text \<open>
  Lines 400-589: the scan, and the fallbacks when it found nothing.
\<close>

definition structured_results :: "str \<Rightarrow> result list" where
  "structured_results content =
     (let results = scan_lines content;
          all_urls = findall_urls content
      in if results = [] \<and> content \<noteq> [] then
           (let numbered_sections = re_split m_numbered content
            in if length numbered_sections > 1 then numbered_fallback numbered_sections
               else [single_fallback content all_urls])
         else results)"

text \<open>Lines 400-597: these results after the URL pass.\<close>

definition parse_text :: "str \<Rightarrow> result list" where
  "parse_text content =
     (let results = structured_results content;
          all_urls = findall_urls content
      in if results \<noteq> [] \<and> all_urls \<noteq> [] then backfill 0 all_urls results else results)"

subsection \<open>The embedded JSON and the whole parser\<close>

text \<open>
  \<^verbatim>\<open>json.loads\<close> is the standard library's: it returns a value, raises
  \<^verbatim>\<open>JSONDecodeError\<close>, or raises something else (a \<^verbatim>\<open>RecursionError\<close> on deep
  nesting). \<^verbatim>\<open>parse_response\<close> takes the decoder as a parameter, and what is proved
  of it holds for every decoder.
\<close>

datatype loaded = Loaded json | JSONDecodeError | LoadsError

text \<open>How the JSON attempt of lines 387-398 ends.\<close>

datatype json_attempt = Returns json | FallsThrough | Fails

definition try_json :: "(str \<Rightarrow> loaded) \<Rightarrow> str \<Rightarrow> json_attempt" where
  "try_json loads content =
     (case find_char 123 content of
        None \<Rightarrow> FallsThrough
      | Some json_start \<Rightarrow>
          (let json_end = (case rfind_char 125 content of None \<Rightarrow> 0 | Some j \<Rightarrow> j + 1)
           in if json_end > json_start then
                (case loads (slice json_start json_end content) of
                   JSONDecodeError \<Rightarrow> FallsThrough
                 | LoadsError \<Rightarrow> Fails
                 | Loaded (JArr xs) \<Rightarrow> Returns (JArr xs)
                 | Loaded (JObj kvs) \<Rightarrow>
                     (case map_of kvs (lit ''results'') of
                        Some v \<Rightarrow> Returns v
                      | None \<Rightarrow> FallsThrough)
                 | Loaded _ \<Rightarrow> FallsThrough)
              else FallsThrough))"

text \<open>
  \<^verbatim>\<open>parse_response\<close>. The response is the list of its choices, each the content of its
  message (\<open>None\<close> for no content). \<^verbatim>\<open>choices[0]\<close> on no choice raises inside the
  \<^verbatim>\<open>try\<close>, and every exception caught there gives the empty list.
\<close>

definition parse_response :: "(str \<Rightarrow> loaded) \<Rightarrow> str option list \<Rightarrow> parsed" where
  "parse_response loads choices =
     (case choices of
        [] \<Rightarrow> Records []
      | message_content # _ \<Rightarrow>
          (if \<not> truthy message_content then Records []
           else
             (let content = the message_content in
              case try_json loads content of
                Returns v \<Rightarrow> Decoded v
              | Fails \<Rightarrow> Records []
              | FallsThrough \<Rightarrow> Records (parse_text content))))"

section \<open>A JSON decoder\<close>

text \<open>
  A decoder for the JSON documents made of objects, arrays, strings with the
  single-character escapes, integers, \<^verbatim>\<open>true\<close>, \<^verbatim>\<open>false\<close> and \<^verbatim>\<open>null\<close>, which
  decodes them as \<^verbatim>\<open>json.loads\<close> does. It is used at concrete documents of that
  kind; it refuses fractions, exponents, \<^verbatim>\<open>NaN\<close>, \<^verbatim>\<open>Infinity\<close> and \<^verbatim>\<open>\u\<close>
  escapes, which \<^verbatim>\<open>json.loads\<close> accepts.
\<close>

definition json_ws :: "str \<Rightarrow> str" where
  "json_ws s = dropWhile (\<lambda>c. c = 32 \<or> c = 9 \<or> c = 10 \<or> c = 13) s"

definition eat :: "str \<Rightarrow> str \<Rightarrow> str option" where
  "eat p s = (if prefix p s then Some (drop (length p) s) else None)"

definition unescape :: "int \<Rightarrow> int option" where
  "unescape e =
     (if e = 34 \<or> e = 92 \<or> e = 47 then Some e
      else if e = 98 then Some 8 else if e = 102 then Some 12 else if e = 110 then Some 10
      else if e = 114 then Some 13 else if e = 116 then Some 9 else None)"

text \<open>The rest of a string after its opening quote, and what follows the closing one.\<close>

fun json_string :: "str \<Rightarrow> (str \<times> str) option" where
  "json_string [] = None"
| "json_string [c] = (if c = 34 then Some ([], []) else None)"
| "json_string (c # e # cs) =
     (if c = 34 then Some ([], e # cs)
      else if c = 92 then
        (case unescape e of
           None \<Rightarrow> None
         | Some x \<Rightarrow> map_option (\<lambda>(s, r). (x # s, r)) (json_string cs))
      else if c < 32 then None
      else map_option (\<lambda>(s, r). (c # s, r)) (json_string (e # cs)))"

fun digits_value :: "str \<Rightarrow> int" where
  "digits_value ds = foldl (\<lambda>a d. 10 * a + (d - 48)) 0 ds"

text \<open>An integer: an optional minus, then \<^verbatim>\<open>0\<close> or digits without a leading zero.\<close>

definition json_int :: "str \<Rightarrow> (json \<times> str) option" where
  "json_int s =
     (let neg = prefix [45] s; r = (if neg then drop 1 s else s);
          ds = takeWhile isdigit r; rest = dropWhile isdigit r
      in if ds = [] \<or> (length ds > 1 \<and> hd ds = 48)
            \<or> prefix [46] rest \<or> prefix [101] rest \<or> prefix [69] rest
         then None
         else Some (JInt (if neg then - digits_value ds else digits_value ds), rest))"

text \<open>
  Values, the elements of an array after its bracket, and the members of an object after
  its brace. The first argument bounds the calls still allowed; \<open>json_loads\<close> allows more
  than a document of its length can need.
\<close>

fun json_value :: "nat \<Rightarrow> str \<Rightarrow> (json \<times> str) option"
  and json_elements :: "nat \<Rightarrow> str \<Rightarrow> (json list \<times> str) option"
  and json_members :: "nat \<Rightarrow> str \<Rightarrow> ((str \<times> json) list \<times> str) option"
where
  "json_value 0 s = None"
| "json_value (Suc n) s =
     (let s = json_ws s in
      if prefix [123] s then
        (case eat [125] (json_ws (drop 1 s)) of
           Some r \<Rightarrow> Some (JObj [], r)
         | None \<Rightarrow> map_option (\<lambda>(kvs, r). (JObj (foldl (\<lambda>d (k, v). AList.update k v d) [] kvs), r))
                     (json_members n (drop 1 s)))
      else if prefix [91] s then
        (case eat [93] (json_ws (drop 1 s)) of
           Some r \<Rightarrow> Some (JArr [], r)
         | None \<Rightarrow> map_option (\<lambda>(vs, r). (JArr vs, r)) (json_elements n (drop 1 s)))
      else if prefix [34] s then map_option (\<lambda>(x, r). (JStr x, r)) (json_string (drop 1 s))
      else if prefix (lit ''true'') s then Some (JBool True, drop 4 s)
      else if prefix (lit ''false'') s then Some (JBool False, drop 5 s)
      else if prefix (lit ''null'') s then Some (JNull, drop 4 s)
      else json_int s)"
| "json_elements 0 s = None"
| "json_elements (Suc n) s =
     (case json_value n s of
        None \<Rightarrow> None
      | Some (v, r) \<Rightarrow>
          (let r = json_ws r in
           if prefix [44] r then map_option (\<lambda>(vs, r'). (v # vs, r')) (json_elements n (drop 1 r))
           else if prefix [93] r then Some ([v], drop 1 r)
           else None))"
| "json_members 0 s = None"
| "json_members (Suc n) s =
     (case eat [34] (json_ws s) of
        None \<Rightarrow> None
      | Some r \<Rightarrow>
          (case json_string r of
             None \<Rightarrow> None
           | Some (k, r) \<Rightarrow>
               (case eat [58] (json_ws r) of
                  None \<Rightarrow> None
                | Some r \<Rightarrow>
                    (case json_value n r of
                       None \<Rightarrow> None
                     | Some (v, r) \<Rightarrow>
                         (let r = json_ws r in
                          if prefix [44] r
                          then map_option (\<lambda>(kvs, r'). ((k, v) # kvs, r')) (json_members n (drop 1 r))
                          else if prefix [125] r then Some ([(k, v)], drop 1 r)
                          else None)))))"

definition json_loads :: "str \<Rightarrow> loaded" where
  "json_loads s =
     (case json_value (2 * length s + 2) s of
        None \<Rightarrow> JSONDecodeError
      | Some (v, r) \<Rightarrow> if json_ws r = [] then Loaded v else JSONDecodeError)"

section \<open>The result fuser (lines 178-250 of search\_service.py)\<close>

text \<open>
  A raw entry of the search tool's output, over the keys the service reads, and the entry
  the service stores for it (lines 183-188).
\<close>

record exa_raw =
  raw_title :: "str option"
  raw_id :: "str option"
  raw_url :: "str option"
  raw_image :: "str option"
  raw_favicon :: "str option"
  raw_text :: "str option"

record exa_result =
  exa_title :: "str option"
  exa_url :: "str option"
  exa_image_url :: "str option"
  exa_description :: "str option"

text \<open>\<^verbatim>\<open>a or b\<close> on optional strings.\<close>

definition py_or :: "str option \<Rightarrow> str option \<Rightarrow> str option" where
  "py_or a b = (if truthy a then a else b)"

definition store_exa :: "exa_raw \<Rightarrow> exa_result" where
  "store_exa res =
     \<lparr>exa_title = py_or (raw_title res) (raw_id res),
      exa_url = raw_url res,
      exa_image_url = py_or (raw_image res) (raw_favicon res),
      exa_description = raw_text res\<rparr>"

text \<open>
  \<^verbatim>\<open>exa_res.get("text")\<close>: a stored entry has the four keys above and no key
  \<^verbatim>\<open>"text"\<close>, so the lookup gives \<^verbatim>\<open>None\<close>.
\<close>

definition exa_text :: "exa_result \<Rightarrow> str option" where
  "exa_text e = None"

text \<open>\<^verbatim>\<open>{w for w in s.split() if len(w) > 3}\<close>.\<close>

definition long_words :: "str \<Rightarrow> str set" where
  "long_words s = set (filter (\<lambda>w. length w > 3) (split_ws [] s))"

text \<open>
  The fuser compares titles through \<^verbatim>\<open>str.lower\<close>, the standard library's case
  mapping over all of Unicode. The fuser takes it as the parameter \<open>lw\<close>, and what is
  proved of the fuser holds for every such function; \<open>lower\<close> above agrees with
  \<^verbatim>\<open>str.lower\<close> on ASCII text and stands for it at concrete ASCII titles.
\<close>

text \<open>
  \<^verbatim>\<open>titles_match\<close>, a closure over \<^verbatim>\<open>parsed_title\<close>, the record's lowercased title.
\<close>

definition titles_match :: "(str \<Rightarrow> str) \<Rightarrow> str \<Rightarrow> str option \<Rightarrow> bool" where
  "titles_match lw parsed_title exa_title_arg =
     (let exa_title_lower = lw (case py_or exa_title_arg (Some []) of None \<Rightarrow> [] | Some t \<Rightarrow> t) in
      if exa_title_lower = [] then False
      else if contains parsed_title exa_title_lower \<or> contains exa_title_lower parsed_title then True
      else card (long_words parsed_title \<inter> long_words exa_title_lower) \<ge> 2)"

text \<open>Truthiness of the optional list of highlights.\<close>

fun truthy_list :: "str list option \<Rightarrow> bool" where
  "truthy_list None = False"
| "truthy_list (Some hs) = (hs \<noteq> [])"

text \<open>What both passes do to the record with the entry they chose (lines 215-226, 236-247).\<close>

definition enrich :: "result \<Rightarrow> exa_result \<Rightarrow> result" where
  "enrich parsed_result exa_res =
     (let r = parsed_result;
          r = (if \<not> truthy (url r) \<and> truthy (exa_url exa_res) then r\<lparr>url := exa_url exa_res\<rparr> else r);
          r = (if \<not> truthy (image_url r) \<and> truthy (exa_image_url exa_res)
               then r\<lparr>image_url := exa_image_url exa_res\<rparr> else r);
          r = (if \<not> truthy (description r) then
                 (let cleaned = clean_exa_text (py_or (exa_description exa_res) (exa_text exa_res)) 400
                  in if truthy cleaned then r\<lparr>description := cleaned\<rparr> else r)
               else r);
          r = (if \<not> truthy_list (highlights r) then
                 (let hs = extract_highlights
                             (case py_or (exa_text exa_res) (Some []) of None \<Rightarrow> [] | Some t \<Rightarrow> t) 4
                  in if truthy_list hs then r\<lparr>highlights := hs\<rparr> else r)
               else r)
      in r)"

text \<open>
  \<^verbatim>\<open>for exa_idx, exa_res in enumerate(stored_exa_results)\<close> with its \<^verbatim>\<open>continue\<close> on
  a used index and its \<^verbatim>\<open>break\<close> at the first entry taken: the first entry from position
  \<open>exa_idx\<close> on that is not used and passes the test, with its index.
\<close>

fun first_unused ::
  "(exa_result \<Rightarrow> bool) \<Rightarrow> nat set \<Rightarrow> nat \<Rightarrow> exa_result list \<Rightarrow> (nat \<times> exa_result) option" where
  "first_unused ok used_indices exa_idx [] = None"
| "first_unused ok used_indices exa_idx (exa_res # rest) =
     (if exa_idx \<in> used_indices then first_unused ok used_indices (Suc exa_idx) rest
      else if ok exa_res then Some (exa_idx, exa_res)
      else first_unused ok used_indices (Suc exa_idx) rest)"

definition needs_exa :: "result \<Rightarrow> bool" where
  "needs_exa r \<longleftrightarrow> \<not> truthy (url r) \<or> \<not> truthy (image_url r)"

text \<open>
  One pass over the stored entries for one record: the record, the used indices, and the
  indices this pass added to them.
\<close>

definition exa_pass ::
  "(exa_result \<Rightarrow> bool) \<Rightarrow> exa_result list \<Rightarrow> nat set \<Rightarrow> result \<Rightarrow> result \<times> nat set \<times> nat list" where
  "exa_pass ok stored used_indices r =
     (if needs_exa r then
        (case first_unused ok used_indices 0 stored of
           None \<Rightarrow> (r, used_indices, [])
         | Some (exa_idx, exa_res) \<Rightarrow> (enrich r exa_res, insert exa_idx used_indices, [exa_idx]))
      else (r, used_indices, []))"

definition parsed_title_of :: "(str \<Rightarrow> str) \<Rightarrow> result \<Rightarrow> str" where
  "parsed_title_of lw r = lw (case py_or (title r) (Some []) of None \<Rightarrow> [] | Some t \<Rightarrow> t)"

definition first_pass ::
  "(str \<Rightarrow> str) \<Rightarrow> exa_result list \<Rightarrow> nat set \<Rightarrow> result \<Rightarrow> result \<times> nat set \<times> nat list" where
  "first_pass lw stored used_indices r =
     exa_pass (\<lambda>exa_res. titles_match lw (parsed_title_of lw r) (exa_title exa_res))
       stored used_indices r"

definition second_pass :: "exa_result list \<Rightarrow> nat set \<Rightarrow> result \<Rightarrow> result \<times> nat set \<times> nat list" where
  "second_pass stored used_indices r = exa_pass (\<lambda>exa_res. True) stored used_indices r"

text \<open>The body of \<^verbatim>\<open>for idx, parsed_result in enumerate(result)\<close>: both passes.\<close>

definition fuse_one ::
  "(str \<Rightarrow> str) \<Rightarrow> exa_result list \<Rightarrow> nat set \<Rightarrow> result \<Rightarrow> result \<times> nat set \<times> nat list" where
  "fuse_one lw stored used_indices r =
     (case first_pass lw stored used_indices r of
        (r1, used1, taken1) \<Rightarrow>
          (case second_pass stored used1 r1 of
             (r2, used2, taken2) \<Rightarrow> (r2, used2, taken1 @ taken2)))"

text \<open>
  The loop over the records. Besides the records and \<^verbatim>\<open>used_indices\<close> it returns, for
  every \<^verbatim>\<open>used_indices.add(exa_idx)\<close> in order, the pair of the record's index and
  \<^verbatim>\<open>exa_idx\<close>.
\<close>

fun fuse_loop ::
  "(str \<Rightarrow> str) \<Rightarrow> exa_result list \<Rightarrow> nat \<Rightarrow> nat set \<Rightarrow> result list \<Rightarrow> result list \<times> nat set \<times> (nat \<times> nat) list" where
  "fuse_loop lw stored idx used_indices [] = ([], used_indices, [])"
| "fuse_loop lw stored idx used_indices (r # rs) =
     (case fuse_one lw stored used_indices r of
        (r', used', taken) \<Rightarrow>
          (case fuse_loop lw stored (Suc idx) used' rs of
             (rs', used'', consumed) \<Rightarrow> (r' # rs', used'', map (Pair idx) taken @ consumed)))"

text \<open>\<^verbatim>\<open>if result and stored_exa_results:\<close> and the loop.\<close>

definition fuse ::
  "(str \<Rightarrow> str) \<Rightarrow> result list \<Rightarrow> exa_result list \<Rightarrow> result list \<times> nat set \<times> (nat \<times> nat) list" where
  "fuse lw results stored =
     (if results \<noteq> [] \<and> stored \<noteq> [] then fuse_loop lw stored 0 {} results
      else (results, {}, []))"

text \<open>
  A record and a later state of it: the title, the match rationale, the additional
  information and the relevance are the same, and each of the other fields is the same
  if it held a value (a non-empty one) before.
\<close>

definition enriches :: "result \<Rightarrow> result \<Rightarrow> bool" where
  "enriches r r' \<longleftrightarrow>
     title r' = title r \<and> why_matches r' = why_matches r
     \<and> additional_info r' = additional_info r \<and> relevance r' = relevance r
     \<and> (truthy (url r) \<longrightarrow> url r' = url r)
     \<and> (truthy (image_url r) \<longrightarrow> image_url r' = image_url r)
     \<and> (truthy (description r) \<longrightarrow> description r' = description r)
     \<and> (truthy_list (highlights r) \<longrightarrow> highlights r' = highlights r)"

section \<open>The steps of the snippet cleaner, named\<close>

text \<open>
  The cleaner is a chain of steps. To reason about it, the steps after the link
  replacement (lines 635-638) and the truncation (lines 641-647) are named, and so are
  the properties of a text that these steps leave as it is.
\<close>

definition squeeze :: "str \<Rightarrow> str" where
  "squeeze s = re_sub m_spaces (\<lambda>_. [32]) s"

definition tidy :: "str \<Rightarrow> str" where
  "tidy s =
     strip (squeeze (re_sub m_backslash_n (\<lambda>_. [32])
       (map (\<lambda>c. if c = 42 then 32 else c) (re_sub m_hashes (\<lambda>_. []) s))))"

definition shorten :: "nat \<Rightarrow> str \<Rightarrow> str" where
  "shorten max_length cleaned =
     (if length cleaned > max_length then
        (case rfind_char 46 (take max_length cleaned) of
           None \<Rightarrow> strip (take max_length cleaned) @ [8230]
         | Some last_period \<Rightarrow>
             if last_period > 120 then take (last_period + 1) (take max_length cleaned)
             else strip (take max_length cleaned) @ [8230])
      else cleaned)"

text \<open>A backslash directly followed by \<^verbatim>\<open>n\<close> somewhere in the text.\<close>

fun has_backslash_n :: "str \<Rightarrow> bool" where
  "has_backslash_n (a # b # s) = ((a = 92 \<and> b = 110) \<or> has_backslash_n (b # s))"
| "has_backslash_n [a] = False"
| "has_backslash_n [] = False"

text \<open>Every whitespace character is a space, and none is followed by whitespace.\<close>

fun single_spaced :: "str \<Rightarrow> bool" where
  "single_spaced (c # d # s) = ((isspace c \<longrightarrow> c = 32 \<and> \<not> isspace d) \<and> single_spaced (d # s))"
| "single_spaced [c] = (isspace c \<longrightarrow> c = 32)"
| "single_spaced [] = True"

text \<open>No whitespace at either end.\<close>

definition trimmed :: "str \<Rightarrow> bool" where
  "trimmed s \<longleftrightarrow> s = [] \<or> (\<not> isspace (hd s) \<and> \<not> isspace (last s))"

text \<open>A text that the steps after the link replacement leave as it is.\<close>

definition settled :: "str \<Rightarrow> bool" where
  "settled s \<longleftrightarrow>
     35 \<notin> set s \<and> 42 \<notin> set s \<and> \<not> has_backslash_n s \<and> single_spaced s \<and> trimmed s"

section \<open>Properties of the retry loops\<close>

lemma str_nat_3: "str_nat 3 = lit ''3''"
  by (simp add: str_nat.simps lit_def)

lemma str_nat_4: "str_nat 4 = lit ''4''"
  by (simp add: str_nat.simps lit_def)

lemma upt_1_5: "[1 ..< 5] = [1, 2, 3, 4::nat]"
  by (simp add: upt_rec)

lemma upt_1_4: "[1 ..< 4] = [1, 2, 3::nat]"
  by (simp add: upt_rec)

lemma upt_S5: "[Suc 0 ..< 5] = [1, 2, 3, 4::nat]"
  using upt_1_5 by simp
lemma upt_S4: "[Suc 0 ..< 4] = [1, 2, 3::nat]"
  using upt_1_4 by simp

lemma lit_append: "lit (a @ b) = lit a @ lit b"
  by (simp add: lit_def)

lemma qg_message:
  "lit ''Question generation failed after '' @ str_nat 4 @ lit '' attempts. Last error: '' @ x
      = lit ''Question generation failed after 4 attempts. Last error: '' @ x"
  by (simp add: str_nat_4 lit_def)

lemma search_message:
  "lit ''Search failed after '' @ str_nat 3 @ lit '' attempts. Last error: '' @ x
      = lit ''Search failed after 3 attempts. Last error: '' @ x"
  by (simp add: str_nat_3 lit_def)

text \<open>
  C3. When every attempt fails with a transient error, question generation makes exactly
  4 attempts, sleeps 1, 2 and 4 seconds between them (\<open>2 ^ (attempt - 1)\<close>) and then
  raises an error whose message holds the attempt count and the last error; the search
  makes exactly 3 attempts, sleeps 2 and 4 seconds between them (\<open>2 ^ attempt\<close>) and then
  returns the envelope with success false, no results and a message that holds the
  attempt count and the last error. Each loop sleeps one time less than it attempts.
\<close>

theorem retry_exhaustion:
  assumes qg: "\<And>k. call k = Raise (OtherException (m k))"
    and se: "\<And>k. snd (attempt_op k) = Raise (OtherException (e k))"
  shows "generate_questions_with_retry call =
           (Raise (OtherException
              (lit ''Question generation failed after 4 attempts. Last error: '' @ m 4)),
            [Attempt 1, Sleep 1, Attempt 2, Sleep 2, Attempt 3, Sleep 4, Attempt 4])
    \<and> search_with_retry attempt_op =
           (Return \<lparr>env_success = False, env_results = Records [],
                    env_error = Some (lit ''Search failed after 3 attempts. Last error: '' @ e 3)\<rparr>,
            Attempt 1 # map Remote (fst (attempt_op 1)) @ Sleep 2 #
            Attempt 2 # map Remote (fst (attempt_op 2)) @ Sleep 4 #
            Attempt 3 # map Remote (fst (attempt_op 3)))
    \<and> length (filter is_sleep (snd (generate_questions_with_retry call))) = MAX_RETRIES_QG - 1
    \<and> length (filter is_sleep (snd (search_with_retry attempt_op))) = MAX_RETRIES - 1"
proof -
  have a: "generate_questions_with_retry call =
           (Raise (OtherException
              (lit ''Question generation failed after 4 attempts. Last error: '' @ m 4)),
            [Attempt 1, Sleep 1, Attempt 2, Sleep 2, Attempt 3, Sleep 4, Attempt 4])"
    by (simp add: generate_questions_with_retry_def MAX_RETRIES_QG_def upt_S5 qg qg_message)
  have b: "search_with_retry attempt_op =
     (Return (failure (lit ''Search failed after 3 attempts. Last error: '' @ e 3)),
      Attempt 1 # map Remote (fst (attempt_op 1)) @ Sleep 2 #
      Attempt 2 # map Remote (fst (attempt_op 2)) @ Sleep 4 #
      Attempt 3 # map Remote (fst (attempt_op 3)))"
    by (simp add: search_with_retry_def MAX_RETRIES_def upt_S4 se search_message Let_def)
  have c: "filter is_sleep (map Remote cs) = []" for cs
    by (induction cs) auto
  show ?thesis unfolding a b
    by (simp add: failure_def c MAX_RETRIES_QG_def MAX_RETRIES_def)
qed

theorem retry_exhaustion_witness:
  "generate_questions_with_retry (\<lambda>k. (Raise (OtherException (lit ''timeout'')) :: unit outcome)) =
           (Raise (OtherException
              (lit ''Question generation failed after 4 attempts. Last error: '' @ lit ''timeout'')),
            [Attempt 1, Sleep 1, Attempt 2, Sleep 2, Attempt 3, Sleep 4, Attempt 4])
   \<and> search_with_retry (\<lambda>k. ([SandboxCreate], Raise (OtherException (lit ''timeout'')))) =
           (Return \<lparr>env_success = False, env_results = Records [],
                    env_error = Some (lit ''Search failed after 3 attempts. Last error: '' @ lit ''timeout'')\<rparr>,
            [Attempt 1, Remote SandboxCreate, Sleep 2, Attempt 2, Remote SandboxCreate, Sleep 4,
             Attempt 3, Remote SandboxCreate])"
  using retry_exhaustion [of "\<lambda>k. (Raise (OtherException (lit ''timeout'')) :: unit outcome)" "\<lambda>k. lit ''timeout''"
      "\<lambda>k. ([SandboxCreate], Raise (OtherException (lit ''timeout'')))" "\<lambda>k. lit ''timeout''"]
  by simp

text \<open>
  C4. When the first attempt ends in a validation failure (a ValueError), neither loop
  sleeps or attempts again: question generation raises a ValueError at once, and the
  search returns at once the envelope with success false and an empty result list.
\<close>

theorem validation_failure_no_retry:
  assumes "call 1 = Raise (ValueError m)"
    and "snd (attempt_op 1) = Raise (ValueError e)"
  shows "generate_questions_with_retry call =
           (Raise (ValueError (lit ''Question generation failed: '' @ m)), [Attempt 1])
    \<and> search_with_retry attempt_op =
           (Return \<lparr>env_success = False, env_results = Records [],
                    env_error = Some (lit ''Configuration error: '' @ e)\<rparr>,
            Attempt 1 # map Remote (fst (attempt_op 1)))"
  using assms
  by (simp add: generate_questions_with_retry_def MAX_RETRIES_QG_def upt_S5
      search_with_retry_def MAX_RETRIES_def upt_S4 failure_def)

theorem validation_failure_no_retry_witness:
  "generate_questions_with_retry (\<lambda>k. (Raise (ValueError (lit ''bad'')) :: unit outcome)) =
           (Raise (ValueError (lit ''Question generation failed: '' @ lit ''bad'')), [Attempt 1])
    \<and> search_with_retry (\<lambda>k. ([SandboxCreate, SandboxKill], Raise (ValueError (lit ''bad'')))) =
           (Return \<lparr>env_success = False, env_results = Records [],
                    env_error = Some (lit ''Configuration error: '' @ lit ''bad'')\<rparr>,
            [Attempt 1, Remote SandboxCreate, Remote SandboxKill])"
  using validation_failure_no_retry [of "\<lambda>k. (Raise (ValueError (lit ''bad'')) :: unit outcome)" "lit ''bad''"
      "\<lambda>k. ([SandboxCreate, SandboxKill], Raise (ValueError (lit ''bad'')))" "lit ''bad''"]
  by simp

lemma search_loop_returns:
  "\<forall>k m. snd (attempt_op k) \<noteq> Raise (NotAnException m) \<Longrightarrow>
   \<exists>r. fst (search_loop attempt_op ks le tr) = Return r \<and>
     ((\<exists>k \<in> set ks. snd (attempt_op k) = Return r) \<or>
      (env_success r = False \<and> env_results r = Records [] \<and> env_error r \<noteq> None))"
proof (induction ks arbitrary: le tr)
  case Nil
  then show ?case by (simp add: failure_def)
next
  case (Cons k ks)
  show ?case
  proof (cases "snd (attempt_op k)")
    case (Return r)
    then show ?thesis by (simp add: Let_def)
  next
    case (Raise x)
    show ?thesis
    proof (cases x)
      case (ValueError m)
      with Raise show ?thesis by (simp add: Let_def failure_def)
    next
      case (OtherException m)
      from Cons.IH [OF Cons.prems] obtain r where
        "fst (search_loop attempt_op ks (Some (OtherException m))
           (if k < MAX_RETRIES then (tr @ Attempt k # map Remote (fst (attempt_op k))) @ [Sleep (2 ^ k)]
            else tr @ Attempt k # map Remote (fst (attempt_op k)))) = Return r \<and>
         ((\<exists>k \<in> set ks. snd (attempt_op k) = Return r) \<or>
          (env_success r = False \<and> env_results r = Records [] \<and> env_error r \<noteq> None))"
        by blast
      with Raise OtherException show ?thesis by (auto simp add: Let_def)
    next
      case (NotAnException m)
      with Raise Cons.prems show ?thesis by simp
    qed
  qed
qed

text \<open>
  C5. The search entry point returns an envelope whatever Exception its attempts end in:
  the value a successful attempt returned, or a failure envelope with success false,
  no results and an error message. A missing (unset or empty) E2B, Exa or Groq key is
  found before any remote call: the run is one attempt with no remote call and no sleep,
  and it returns the failure envelope naming the variable.
\<close>

theorem search_never_raises:
  "((\<forall>k m. snd (attempt_op k) \<noteq> Raise (NotAnException m)) \<longrightarrow>
      (\<exists>r. fst (search_with_retry attempt_op) = Return r \<and>
         ((\<exists>k \<in> {1, 2, 3}. snd (attempt_op k) = Return r) \<or>
          (env_success r = False \<and> env_results r = Records [] \<and> env_error r \<noteq> None))))
   \<and> (\<not> truthy (E2B_API_KEY env) \<longrightarrow>
        search_with_e2b_exa env sandboxed q a qs uid =
          (Return \<lparr>env_success = False, env_results = Records [],
             env_error = Some (lit ''Configuration error: E2B_API_KEY environment variable is not set'')\<rparr>,
           [Attempt 1]))
   \<and> (truthy (E2B_API_KEY env) \<and> \<not> truthy (EXA_API_KEY env) \<longrightarrow>
        search_with_e2b_exa env sandboxed q a qs uid =
          (Return \<lparr>env_success = False, env_results = Records [],
             env_error = Some (lit ''Configuration error: EXA_API_KEY environment variable is not set'')\<rparr>,
           [Attempt 1]))
   \<and> (truthy (E2B_API_KEY env) \<and> truthy (EXA_API_KEY env) \<and> \<not> truthy (GROQ_API_KEY env) \<longrightarrow>
        search_with_e2b_exa env sandboxed q a qs uid =
          (Return \<lparr>env_success = False, env_results = Records [],
             env_error = Some (lit ''Configuration error: GROQ_API_KEY environment variable is not set'')\<rparr>,
           [Attempt 1]))"
proof -
  have a: "(\<forall>k m. snd (attempt_op k) \<noteq> Raise (NotAnException m)) \<longrightarrow>
      (\<exists>r. fst (search_with_retry attempt_op) = Return r \<and>
         ((\<exists>k \<in> {1, 2, 3}. snd (attempt_op k) = Return r) \<or>
          (env_success r = False \<and> env_results r = Records [] \<and> env_error r \<noteq> None)))"
    using search_loop_returns [of attempt_op "[1, 2, 3]" None "[]"]
    by (simp add: search_with_retry_def MAX_RETRIES_def upt_S4)
  have m: "lit ''Configuration error: '' @ lit x = lit (''Configuration error: '' @ x)" for x
    by (simp add: lit_def)
  show ?thesis
    using a
    by (simp add: search_with_e2b_exa_def search_with_retry_def MAX_RETRIES_def upt_S4
        single_attempt_def failure_def m del: truthy.simps)
qed

theorem search_never_raises_witness:
  "fst (search_with_retry (\<lambda>k. ([SandboxCreate], Raise (OtherException (lit ''down''))))) =
     Return \<lparr>env_success = False, env_results = Records [],
             env_error = Some (lit ''Search failed after 3 attempts. Last error: down'')\<rparr>
   \<and> \<not> truthy (E2B_API_KEY \<lparr>E2B_API_KEY = None, EXA_API_KEY = Some (lit ''k''), GROQ_API_KEY = Some (lit ''k'')\<rparr>)
   \<and> search_with_e2b_exa \<lparr>E2B_API_KEY = None, EXA_API_KEY = Some (lit ''k''), GROQ_API_KEY = Some (lit ''k'')\<rparr>
        (\<lambda>k p. ([SandboxCreate, ChatCompletion, SandboxKill], Raise (OtherException (lit ''down''))))
        (lit ''shoes'') [] [] None =
          (Return \<lparr>env_success = False, env_results = Records [],
             env_error = Some (lit ''Configuration error: E2B_API_KEY environment variable is not set'')\<rparr>,
           [Attempt 1])"
proof -
  have m: "lit ''Search failed after '' @ str_nat 3 @ lit '' attempts. Last error: '' @ lit ''down''
     = lit ''Search failed after 3 attempts. Last error: down''"
    by (simp add: str_nat_3 lit_def)
  have 1: "fst (search_with_retry (\<lambda>k. ([SandboxCreate], Raise (OtherException (lit ''down''))))) =
     Return \<lparr>env_success = False, env_results = Records [],
             env_error = Some (lit ''Search failed after 3 attempts. Last error: down'')\<rparr>"
    by (simp add: search_with_retry_def MAX_RETRIES_def upt_S4 failure_def m)
  show ?thesis
    using search_never_raises [of "\<lambda>k. ([SandboxCreate], Raise (OtherException (lit ''down'')))"
      "\<lparr>E2B_API_KEY = None, EXA_API_KEY = Some (lit ''k''), GROQ_API_KEY = Some (lit ''k'')\<rparr>"
      "\<lambda>k p. ([SandboxCreate, ChatCompletion, SandboxKill], Raise (OtherException (lit ''down'')))"
      "lit ''shoes''" "[]" "[]" None] 1
    by simp
qed

section \<open>Properties of the prompt builder\<close>

text \<open>
  C10. The search prompt builder looks for ranking and negation language by substring
  containment in the lowercased query, whatever the word boundaries: a query whose
  lowercased text contains "top" or "best" (as "laptop" does) gets the ranking directive,
  and a query that contains "not", "haven't" or "didn't" (as "nothing" and "cannot" do) gets
  the exclusion directive.
\<close>

theorem prompt_directives_by_substring:
  "(contains (lit ''top'') (lower q) \<or> contains (lit ''best'') (lower q) \<longrightarrow>
      build_search_prompt q a qs uid =
        prompt_head q a qs @ ranking_directive
        @ (if negation_language q
           then exclusion_directive @ (if truthy uid then history_hint (the uid) else [])
           else [])
        @ closing_instruction)
   \<and> (contains (lit ''not'') (lower q) \<or> contains (lit ''haven't'') (lower q)
        \<or> contains (lit ''didn't'') (lower q) \<longrightarrow>
      build_search_prompt q a qs uid =
        prompt_head q a qs @ (if ranking_language q then ranking_directive else [])
        @ exclusion_directive @ (if truthy uid then history_hint (the uid) else [])
        @ closing_instruction)
   \<and> contains (lit ''top'') (lower (lit ''laptop''))
   \<and> contains (lit ''not'') (lower (lit ''nothing''))
   \<and> contains (lit ''not'') (lower (lit ''cannot''))"
proof -
  have "contains (lit ''top'') (lower (lit ''laptop''))" by code_simp
  moreover have "contains (lit ''not'') (lower (lit ''nothing''))" by code_simp
  moreover have "contains (lit ''not'') (lower (lit ''cannot''))" by code_simp
  ultimately show ?thesis
    by (auto simp add: build_search_prompt_def ranking_language_def negation_language_def Let_def
        simp del: truthy.simps contains.simps)
qed

theorem prompt_directives_by_substring_witness:
  "contains (lit ''top'') (lower (lit ''laptop''))
   \<and> build_search_prompt (lit ''laptop'') [] [] None =
        prompt_head (lit ''laptop'') [] [] @ ranking_directive @ closing_instruction
   \<and> contains (lit ''not'') (lower (lit ''nothing''))
   \<and> build_search_prompt (lit ''nothing'') [] [] None =
        prompt_head (lit ''nothing'') [] [] @ exclusion_directive @ closing_instruction"
proof -
  have 1: "\<not> negation_language (lit ''laptop'')" by code_simp
  have 2: "\<not> ranking_language (lit ''nothing'')" by code_simp
  show ?thesis
    using prompt_directives_by_substring [of "lit ''laptop''" "[]" "[]" None]
      prompt_directives_by_substring [of "lit ''nothing''" "[]" "[]" None] 1 2
    by (simp del: contains.simps)
qed

section \<open>Properties of the parser\<close>

lemma flush_titles:
  "\<forall>r \<in> set rs. truthy (title r) \<Longrightarrow> \<forall>r \<in> set (flush rs cur). truthy (title r)"
  by (simp add: flush_def)

lemma scan_line_results:
  "sc_results (scan_line st l) = sc_results st
   \<or> sc_results (scan_line st l) = flush (sc_results st) (sc_current st)"
  by (simp add: scan_line_def Let_def)

lemma scan_line_titles:
  assumes "\<forall>r \<in> set (sc_results st). truthy (title r)"
  shows "\<forall>r \<in> set (sc_results (scan_line st l)). truthy (title r)"
  using scan_line_results [of st l] flush_titles [OF assms] assms by metis

lemma foldl_scan_line_titles:
  "\<forall>r \<in> set (sc_results st). truthy (title r) \<Longrightarrow>
   \<forall>r \<in> set (sc_results (foldl scan_line st ls)). truthy (title r)"
proof (induction ls arbitrary: st)
  case Nil
  then show ?case by simp
next
  case (Cons l ls)
  from Cons.IH [OF scan_line_titles [OF Cons.prems]] show ?case by simp
qed

lemma scan_lines_titles: "\<forall>r \<in> set (scan_lines content). truthy (title r)"
proof -
  have "\<forall>r \<in> set (sc_results \<lparr>sc_results = [], sc_current = empty_result, sc_section = None\<rparr>). truthy (title r)"
    by simp
  from flush_titles [OF foldl_scan_line_titles [OF this]] show ?thesis
    by (simp add: scan_lines_def Let_def)
qed

lemma numbered_fallback_titles: "\<forall>r \<in> set (numbered_fallback ns). truthy (title r)"
  by (simp add: numbered_fallback_def)

lemma m_bold_nonempty: "m_bold s = Some (g, n) \<Longrightarrow> g \<noteq> []"
  by (auto simp add: m_bold_def Let_def split: if_splits)

lemma re_search_m_bold_nonempty: "re_search m_bold s = Some g \<Longrightarrow> g \<noteq> []"
proof (induction s)
  case Nil
  then show ?case by simp
next
  case (Cons c cs)
  then show ?case
    by (cases "m_bold (c # cs)") (auto dest: m_bold_nonempty)
qed

lemma placeholder_nonempty: "lit ''Product Recommendation'' \<noteq> []"
  by (simp add: lit_def)

lemma single_fallback_title: "truthy (title (single_fallback content all_urls))"
  using placeholder_nonempty
  by (auto simp add: single_fallback_def split: option.splits dest: re_search_m_bold_nonempty)

lemma structured_results_titles: "\<forall>r \<in> set (structured_results content). truthy (title r)"
  using scan_lines_titles [of content] numbered_fallback_titles single_fallback_title
  by (simp add: structured_results_def Let_def)

lemma backfill_titles:
  "\<forall>r \<in> set rs. truthy (title r) \<Longrightarrow> \<forall>r \<in> set (backfill k us rs). truthy (title r)"
  by (induction rs arbitrary: k) auto

lemma parse_text_titles: "\<forall>r \<in> set (parse_text content). truthy (title r)"
  using structured_results_titles [of content] backfill_titles
  by (simp add: parse_text_def Let_def)

lemma parse_response_Records:
  "parse_response loads choices = Records rs \<Longrightarrow>
   rs = [] \<or> (\<exists>content. rs = parse_text content)"
  by (auto simp add: parse_response_def Let_def split: list.splits json_attempt.splits if_splits)

lemma backfill_no_urls: "backfill k [] rs = rs"
  by (induction rs) auto

lemma parse_text_backfill:
  "parse_text content = backfill 0 (findall_urls content) (structured_results content)"
  by (auto simp add: parse_text_def Let_def backfill_no_urls)

lemma length_backfill: "length (backfill k us rs) = length rs"
  by (induction rs arbitrary: k) auto

lemma backfill_nth:
  "i < length rs \<Longrightarrow>
   backfill k us rs ! i =
     (if \<not> truthy (url (rs ! i)) \<and> k + length (filter (\<lambda>r. \<not> truthy (url r)) (take i rs)) < length us
      then (rs ! i)\<lparr>url := Some (us ! (k + length (filter (\<lambda>r. \<not> truthy (url r)) (take i rs))))\<rparr>
      else rs ! i)"
proof (induction rs arbitrary: k i)
  case Nil
  then show ?case by simp
next
  case (Cons r rs)
  show ?case
  proof (cases i)
    case 0
    then show ?thesis by simp
  next
    case (Suc j)
    with Cons.prems have j: "j < length rs" by simp
    show ?thesis
    proof (cases "\<not> truthy (url r) \<and> k < length us")
      case True
      with Suc Cons.IH [OF j, of "Suc k"] show ?thesis by simp
    next
      case False
      with Suc Cons.IH [OF j, of k] show ?thesis by auto
    qed
  qed
qed

section \<open>Properties of the fuser\<close>

lemma enriches_refl: "enriches r r"
  by (simp add: enriches_def)

lemma clean_exa_text_py_or: "clean_exa_text (py_or d None) n = clean_exa_text d n"
  by (cases d) (simp_all add: py_or_def clean_exa_text_def)

lemma extract_highlights_empty: "extract_highlights [] n = None"
  by (simp add: extract_highlights_def)

lemma enrich_fields:
  "title (enrich r e) = title r"
  "why_matches (enrich r e) = why_matches r"
  "additional_info (enrich r e) = additional_info r"
  "relevance (enrich r e) = relevance r"
  "url (enrich r e) = (if \<not> truthy (url r) \<and> truthy (exa_url e) then exa_url e else url r)"
  "image_url (enrich r e) =
     (if \<not> truthy (image_url r) \<and> truthy (exa_image_url e) then exa_image_url e else image_url r)"
  "description (enrich r e) =
     (if \<not> truthy (description r) \<and> truthy (clean_exa_text (exa_description e) 400)
      then clean_exa_text (exa_description e) 400 else description r)"
  "truthy_list (highlights r) \<Longrightarrow> highlights (enrich r e) = highlights r"
  by (simp_all add: enrich_def Let_def exa_text_def clean_exa_text_py_or extract_highlights_empty
      py_or_def [of None] del: truthy.simps)

lemma enriches_enrich: "enriches r (enrich r e)"
  by (simp add: enriches_def enrich_fields del: truthy.simps)

lemma enrich_truthy:
  "truthy (url r) \<Longrightarrow> truthy (url (enrich r e))"
  "truthy (image_url r) \<Longrightarrow> truthy (image_url (enrich r e))"
  "truthy (description r) \<Longrightarrow> truthy (description (enrich r e))"
  by (simp_all add: enrich_fields del: truthy.simps)

lemma enriches_trans:
  assumes "enriches a b" "enriches b c" shows "enriches a c"
  using assms unfolding enriches_def by (metis)

lemma first_unused_Some:
  "first_unused ok used k es = Some (i, e) \<Longrightarrow>
     k \<le> i \<and> i < k + length es \<and> e = es ! (i - k) \<and> i \<notin> used \<and> ok e
     \<and> (\<forall>j. k \<le> j \<and> j < i \<longrightarrow> j \<in> used \<or> \<not> ok (es ! (j - k)))"
proof (induction es arbitrary: k)
  case Nil
  then show ?case by simp
next
  case (Cons x xs)
  show ?case
  proof (cases "k \<in> used \<or> \<not> ok x")
    case True
    with Cons.prems have "first_unused ok used (Suc k) xs = Some (i, e)"
      by (auto split: if_splits)
    from Cons.IH [OF this] have ih: "Suc k \<le> i" "i < Suc k + length xs" "e = xs ! (i - Suc k)"
      "i \<notin> used" "ok e" "\<forall>j. Suc k \<le> j \<and> j < i \<longrightarrow> j \<in> used \<or> \<not> ok (xs ! (j - Suc k))"
      by auto
    have "\<And>j. k \<le> j \<Longrightarrow> j < i \<Longrightarrow> j \<in> used \<or> \<not> ok ((x # xs) ! (j - k))"
    proof -
      fix j assume "k \<le> j" "j < i"
      show "j \<in> used \<or> \<not> ok ((x # xs) ! (j - k))"
      proof (cases "j = k")
        case True
        with \<open>k \<in> used \<or> \<not> ok x\<close> show ?thesis by auto
      next
        case False
        with \<open>k \<le> j\<close> have "Suc k \<le> j" by simp
        with ih(6) \<open>j < i\<close> have "j \<in> used \<or> \<not> ok (xs ! (j - Suc k))" by blast
        moreover from \<open>Suc k \<le> j\<close> have "(x # xs) ! (j - k) = xs ! (j - Suc k)"
          by (simp add: Suc_diff_le)
        ultimately show ?thesis by simp
      qed
    qed
    moreover from ih(1) have "(x # xs) ! (i - k) = xs ! (i - Suc k)"
      by (simp add: Suc_diff_le)
    ultimately show ?thesis using ih by auto
  next
    case False
    with Cons.prems show ?thesis by auto
  qed
qed

lemma first_unused_None:
  "first_unused ok used k es = None \<longleftrightarrow> (\<forall>j < length es. k + j \<in> used \<or> \<not> ok (es ! j))"
proof (induction es arbitrary: k)
  case Nil
  then show ?case by simp
next
  case (Cons x xs)
  have "(\<forall>j < length (x # xs). k + j \<in> used \<or> \<not> ok ((x # xs) ! j))
        \<longleftrightarrow> (k \<in> used \<or> \<not> ok x) \<and> (\<forall>j < length xs. Suc k + j \<in> used \<or> \<not> ok (xs ! j))"
    by (auto simp add: All_less_Suc2 less_Suc_eq_0_disj)
  with Cons.IH [of "Suc k"] show ?case by auto
qed

lemma first_unused_least:
  assumes "i < length es" "k + i \<notin> used" "ok (es ! i)"
    and "\<forall>j < i. k + j \<in> used \<or> \<not> ok (es ! j)"
  shows "first_unused ok used k es = Some (k + i, es ! i)"
  using assms
proof (induction es arbitrary: k i)
  case Nil
  then show ?case by simp
next
  case (Cons x xs)
  show ?case
  proof (cases i)
    case 0
    with Cons.prems show ?thesis by simp
  next
    case (Suc i')
    with Cons.prems have hd: "k \<in> used \<or> \<not> ok x" by auto
    have "first_unused ok used (Suc k) xs = Some (Suc k + i', xs ! i')"
    proof (rule Cons.IH)
      show "i' < length xs" using Cons.prems(1) Suc by simp
      show "Suc k + i' \<notin> used" using Cons.prems(2) Suc by simp
      show "ok (xs ! i')" using Cons.prems(3) Suc by simp
      show "\<forall>j<i'. Suc k + j \<in> used \<or> \<not> ok (xs ! j)"
      proof (intro allI impI)
        fix j assume "j < i'"
        then have "Suc j < i" using Suc by simp
        with Cons.prems(4) have "k + Suc j \<in> used \<or> \<not> ok ((x # xs) ! Suc j)" by blast
        then show "Suc k + j \<in> used \<or> \<not> ok (xs ! j)" by simp
      qed
    qed
    with hd Suc show ?thesis by auto
  qed
qed

lemma exa_pass_props:
  assumes "exa_pass ok stored used r = (r', used', taken)"
  shows "enriches r r'" "used' = used \<union> set taken" "set taken \<inter> used = {}"
    "distinct taken" "\<forall>j \<in> set taken. j < length stored"
proof -
  show "enriches r r'" using assms
    by (auto simp add: exa_pass_def enriches_refl enriches_enrich split: if_splits option.splits)
  show "used' = used \<union> set taken" using assms
    by (auto simp add: exa_pass_def split: if_splits option.splits)
  show "set taken \<inter> used = {}" using assms
    by (auto simp add: exa_pass_def split: if_splits option.splits dest: first_unused_Some)
  show "distinct taken" using assms
    by (auto simp add: exa_pass_def split: if_splits option.splits)
  show "\<forall>j \<in> set taken. j < length stored" using assms
    by (auto simp add: exa_pass_def split: if_splits option.splits dest: first_unused_Some)
qed

lemma fuse_one_props:
  assumes "fuse_one lw stored used r = (r', used', taken)"
  shows "enriches r r'" "used' = used \<union> set taken" "set taken \<inter> used = {}"
    "distinct taken" "\<forall>j \<in> set taken. j < length stored"
proof -
  obtain r1 used1 t1 where p1: "first_pass lw stored used r = (r1, used1, t1)"
    by (metis prod_cases3)
  obtain r2 used2 t2 where p2: "second_pass stored used1 r1 = (r2, used2, t2)"
    by (metis prod_cases3)
  from assms p1 p2 have eq: "r' = r2" "used' = used2" "taken = t1 @ t2"
    by (simp_all add: fuse_one_def)
  note a = exa_pass_props [OF p1 [unfolded first_pass_def]]
  note b = exa_pass_props [OF p2 [unfolded second_pass_def]]
  show "enriches r r'" using a(1) b(1) eq enriches_trans by blast
  show "used' = used \<union> set taken" using a(2) b(2) eq by auto
  show "set taken \<inter> used = {}" using a(2,3) b(3) eq by auto
  show "distinct taken" using a(2,4) b(3,4) eq by auto
  show "\<forall>j \<in> set taken. j < length stored" using a(5) b(5) eq by auto
qed

lemma fuse_loop_props:
  assumes "fuse_loop lw stored idx used rs = (out, used', consumed)"
  shows "length out = length rs \<and> (\<forall>i < length rs. enriches (rs ! i) (out ! i))
    \<and> used' = used \<union> set (map snd consumed) \<and> set (map snd consumed) \<inter> used = {}
    \<and> distinct (map snd consumed)
    \<and> (\<forall>p \<in> set consumed. idx \<le> fst p \<and> fst p < idx + length rs \<and> snd p < length stored)"
  using assms
proof (induction rs arbitrary: idx used out used' consumed)
  case Nil
  then show ?case by simp
next
  case (Cons r rs)
  obtain r1 used1 taken where one: "fuse_one lw stored used r = (r1, used1, taken)"
    by (metis prod_cases3)
  obtain rs1 used2 cons1 where rest: "fuse_loop lw stored (Suc idx) used1 rs = (rs1, used2, cons1)"
    by (metis prod_cases3)
  from Cons.prems one rest have eq: "out = r1 # rs1" "used' = used2"
    "consumed = map (Pair idx) taken @ cons1"
    by simp_all
  note a = fuse_one_props [OF one]
  note b = Cons.IH [OF rest]
  have snd_eq: "map snd consumed = taken @ map snd cons1"
    by (simp add: eq o_def)
  have 1: "length out = length (r # rs)" using b eq by simp
  have 2: "\<forall>i < length (r # rs). enriches ((r # rs) ! i) (out ! i)"
    using a(1) b eq by (auto simp add: nth_Cons split: nat.splits)
  have 3: "used' = used \<union> set (map snd consumed)"
    using a(2) b eq snd_eq by auto
  have 4: "set (map snd consumed) \<inter> used = {}"
    using a(2,3) b snd_eq by auto
  have 5: "distinct (map snd consumed)"
    using a(2,4) b snd_eq by auto
  have 6: "\<forall>p \<in> set consumed. idx \<le> fst p \<and> fst p < idx + length (r # rs) \<and> snd p < length stored"
    using a(5) b eq by auto
  from 1 2 3 4 5 6 show ?case by blast
qed

lemma fuse_props:
  assumes "fuse lw results stored = (out, used, consumed)"
  shows "length out = length results \<and> (\<forall>i < length results. enriches (results ! i) (out ! i))
    \<and> used = set (map snd consumed) \<and> distinct (map snd consumed)
    \<and> (\<forall>p \<in> set consumed. fst p < length results \<and> snd p < length stored)"
proof (cases "results \<noteq> [] \<and> stored \<noteq> []")
  case True
  with assms have "fuse_loop lw stored 0 {} results = (out, used, consumed)"
    by (simp add: fuse_def)
  from fuse_loop_props [OF this] show ?thesis by auto
next
  case False
  with assms have "out = results" "used = {}" "consumed = []"
    by (auto simp add: fuse_def split: if_splits)
  then show ?thesis by (simp add: enriches_refl)
qed

section \<open>Claims about the parser\<close>

lemma fuse_titles:
  assumes "\<forall>r \<in> set rs. truthy (title r)"
  shows "\<forall>r \<in> set (fst (fuse lw rs stored)). truthy (title r)"
proof
  fix r assume r: "r \<in> set (fst (fuse lw rs stored))"
  obtain out used consumed where f: "fuse lw rs stored = (out, used, consumed)"
    by (metis prod_cases3)
  from fuse_props [OF f] have len: "length out = length rs"
    and en: "\<forall>i < length rs. enriches (rs ! i) (out ! i)" by auto
  from r f obtain i where i: "i < length out" "r = out ! i"
    by (auto simp add: in_set_conv_nth)
  with len en have "title r = title (rs ! i)" by (simp add: enriches_def)
  moreover from i len assms have "truthy (title (rs ! i))" by simp
  ultimately show "truthy (title r)" by simp
qed

text \<open>
  C1, as stated, fails: the embedded-JSON path returns the decoded value as it is, so a
  reply whose JSON holds a record with no title gives a record with no title.
\<close>

theorem json_record_without_title:
  \<open>parse_response json_loads [Some (lit ''{"results":[{"url":"http://x"}]}'')] =
     Decoded (JArr [JObj [(lit ''url'', JStr (lit ''http://x''))]])
   \<and> map_of [(lit ''url'', JStr (lit ''http://x''))] (lit ''title'') = None\<close>
  by code_simp

text \<open>
  C1 (amended). Every record that the parser returns from its text paths (the labeled
  scan, the numbered-section fallback, the single-record fallback) has a non-empty
  title, and still has it after fusion with any stored entries (whatever function
  stands for \<^verbatim>\<open>str.lower\<close> in the title test).
\<close>

theorem text_paths_titled:
  assumes "parse_response loads choices = Records rs"
  shows "(\<forall>r \<in> set rs. truthy (title r)) \<and> (\<forall>r \<in> set (fst (fuse lw rs stored)). truthy (title r))"
proof -
  from parse_response_Records [OF assms] parse_text_titles
  have "\<forall>r \<in> set rs. truthy (title r)" by auto
  with fuse_titles show ?thesis by blast
qed

theorem text_paths_titled_witness:
  "parse_response json_loads [Some (lit ''hello world'')] =
     Records [\<lparr>title = Some (lit ''Product Recommendation''), description = Some (lit ''hello world''),
               url = Some [], image_url = None, highlights = None, why_matches = None,
               additional_info = None, relevance = Some 1\<rparr>]
   \<and> truthy (title \<lparr>title = Some (lit ''Product Recommendation''), description = Some (lit ''hello world''),
               url = Some [], image_url = None, highlights = None, why_matches = None,
               additional_info = None, relevance = Some 1\<rparr>)"
proof -
  have e: "parse_response json_loads [Some (lit ''hello world'')] =
     Records [\<lparr>title = Some (lit ''Product Recommendation''), description = Some (lit ''hello world''),
               url = Some [], image_url = None, highlights = None, why_matches = None,
               additional_info = None, relevance = Some 1\<rparr>]"
    by code_simp
  from text_paths_titled [OF e, THEN conjunct1] have "truthy (title \<lparr>title = Some (lit ''Product Recommendation''), description = Some (lit ''hello world''),
               url = Some [], image_url = None, highlights = None, why_matches = None,
               additional_info = None, relevance = Some 1\<rparr>)"
    by (simp del: truthy.simps)
  with e show ?thesis by (simp del: truthy.simps)
qed

text \<open>
  C2, as stated, fails: the embedded-JSON path returns before the URL pass, so the record
  of the JSON keeps its unfilled url although the raw text holds a URL.
\<close>

theorem json_record_not_backfilled:
  \<open>parse_response json_loads [Some (lit ''{"results":[{"title":"A"}]} see https://x.com'')] =
     Decoded (JArr [JObj [(lit ''title'', JStr (lit ''A''))]])
   \<and> findall_urls (lit ''{"results":[{"title":"A"}]} see https://x.com'') = [lit ''https://x.com'']
   \<and> map_of [(lit ''title'', JStr (lit ''A''))] (lit ''url'') = None\<close>
  by code_simp

text \<open>
  C2 (amended). When the embedded-JSON attempt falls through, the parser returns the
  records of the scan or of a fallback after the URL pass over all the URLs of the raw
  text: the records keep their order, the record at position \<open>i\<close> whose url is unfilled
  gets the URL of the pool whose index is the number of unfilled records before it, as
  long as the pool has one, and every other record stays as it is.
\<close>

theorem url_backfill_text_paths:
  "(try_json loads content = FallsThrough \<and> content \<noteq> [] \<longrightarrow>
      parse_response loads (Some content # others) =
        Records (backfill 0 (findall_urls content) (structured_results content)))
   \<and> length (backfill k us rs) = length rs
   \<and> (\<forall>i < length rs.
        backfill k us rs ! i =
          (if \<not> truthy (url (rs ! i))
              \<and> k + length (filter (\<lambda>r. \<not> truthy (url r)) (take i rs)) < length us
           then (rs ! i)\<lparr>url := Some (us ! (k + length (filter (\<lambda>r. \<not> truthy (url r)) (take i rs))))\<rparr>
           else rs ! i))"
  using backfill_nth [of _ rs k us]
  by (simp add: parse_response_def parse_text_backfill length_backfill)

theorem url_backfill_text_paths_witness:
  "try_json json_loads
     (lit ''1. Title: Shoe'' @ [10] @ lit ''2. Title: Hat'' @ [10] @ lit ''see https://a.com and https://b.com'')
     = FallsThrough
   \<and> parse_response json_loads
       [Some (lit ''1. Title: Shoe'' @ [10] @ lit ''2. Title: Hat'' @ [10] @ lit ''see https://a.com and https://b.com'')]
     = Records
         [\<lparr>title = Some (lit ''Shoe''), description = None, url = Some (lit ''https://a.com''),
            image_url = None, highlights = None, why_matches = None, additional_info = None,
            relevance = None\<rparr>,
          \<lparr>title = Some (lit ''Hat''), description = Some (lit ''see https://a.com and https://b.com''),
            url = Some (lit ''https://b.com''), image_url = None, highlights = None,
            why_matches = None, additional_info = None, relevance = None\<rparr>]"
proof -
  let ?c = "lit ''1. Title: Shoe'' @ [10] @ lit ''2. Title: Hat'' @ [10] @ lit ''see https://a.com and https://b.com''"
  have 1: "try_json json_loads ?c = FallsThrough" by code_simp
  have 2: "?c \<noteq> []" by code_simp
  have 3: "backfill 0 (findall_urls ?c) (structured_results ?c) =
         [\<lparr>title = Some (lit ''Shoe''), description = None, url = Some (lit ''https://a.com''),
            image_url = None, highlights = None, why_matches = None, additional_info = None,
            relevance = None\<rparr>,
          \<lparr>title = Some (lit ''Hat''), description = Some (lit ''see https://a.com and https://b.com''),
            url = Some (lit ''https://b.com''), image_url = None, highlights = None,
            why_matches = None, additional_info = None, relevance = None\<rparr>]"
    by code_simp
  from url_backfill_text_paths [of json_loads ?c "[]"] 1 2 3 show ?thesis by simp
qed

lemma find_char_nonempty: "find_char c s = Some i \<Longrightarrow> s \<noteq> []"
  by (cases s) auto

text \<open>
  C6. When the text between the first opening brace and the last closing brace of the
  reply decodes as JSON and is an array, or an object with a \<^verbatim>\<open>results\<close> field, the
  parser returns the array, or the value of the field, as decoded and runs none of the
  text heuristics. The reply \<^verbatim>\<open>{"results":[{"title":"A","url":"http://x"}]}\<close> gives the
  list of one record with title \<^verbatim>\<open>A\<close> and url \<^verbatim>\<open>http://x\<close>.
\<close>

theorem embedded_json_returned:
  \<open>(find_char 123 content = Some i \<and> rfind_char 125 content = Some j \<and> i \<le> j
      \<and> loads (slice i (j + 1) content) = Loaded (JArr xs) \<longrightarrow>
      parse_response loads (Some content # others) = Decoded (JArr xs))
   \<and> (find_char 123 content = Some i \<and> rfind_char 125 content = Some j \<and> i \<le> j
      \<and> loads (slice i (j + 1) content) = Loaded (JObj kvs)
      \<and> map_of kvs (lit ''results'') = Some v \<longrightarrow>
      parse_response loads (Some content # others) = Decoded v)
   \<and> parse_response json_loads [Some (lit ''{"results":[{"title":"A","url":"http://x"}]}'')] =
       Decoded (JArr [JObj [(lit ''title'', JStr (lit ''A'')), (lit ''url'', JStr (lit ''http://x''))]])\<close>
proof -
  have \<open>parse_response json_loads [Some (lit ''{"results":[{"title":"A","url":"http://x"}]}'')] =
       Decoded (JArr [JObj [(lit ''title'', JStr (lit ''A'')), (lit ''url'', JStr (lit ''http://x''))]])\<close>
    by code_simp
  then show ?thesis
    by (auto simp add: parse_response_def try_json_def Let_def dest: find_char_nonempty)
qed

theorem embedded_json_returned_witness:
  \<open>find_char 123 (lit ''see {"results":[{"title":"A"}], "n": 1} above'') = Some 4
   \<and> rfind_char 125 (lit ''see {"results":[{"title":"A"}], "n": 1} above'') = Some 38
   \<and> json_loads (slice 4 39 (lit ''see {"results":[{"title":"A"}], "n": 1} above'')) =
       Loaded (JObj [(lit ''results'', JArr [JObj [(lit ''title'', JStr (lit ''A''))]]), (lit ''n'', JInt 1)])
   \<and> parse_response json_loads [Some (lit ''see {"results":[{"title":"A"}], "n": 1} above'')] =
       Decoded (JArr [JObj [(lit ''title'', JStr (lit ''A''))]])\<close>
proof -
  let ?c = \<open>lit ''see {"results":[{"title":"A"}], "n": 1} above''\<close>
  have 1: "find_char 123 ?c = Some 4" by code_simp
  have 2: "rfind_char 125 ?c = Some 38" by code_simp
  have 3: "json_loads (slice 4 (38 + 1) ?c) =
       Loaded (JObj [(lit ''results'', JArr [JObj [(lit ''title'', JStr (lit ''A''))]]), (lit ''n'', JInt 1)])"
    by code_simp
  have 4: "map_of [(lit ''results'', JArr [JObj [(lit ''title'', JStr (lit ''A''))]]), (lit ''n'', JInt 1)]
             (lit ''results'') = Some (JArr [JObj [(lit ''title'', JStr (lit ''A''))]])"
    by code_simp
  from embedded_json_returned [of ?c 4 38 json_loads _ "[]"
      "[(lit ''results'', JArr [JObj [(lit ''title'', JStr (lit ''A''))]]), (lit ''n'', JInt 1)]"
      "JArr [JObj [(lit ''title'', JStr (lit ''A''))]]"] 1 2 3 4
  show ?thesis by simp
qed

section \<open>Claims about the fuser\<close>

lemma exa_pass_taken:
  assumes "needs_exa r" "i < length stored" "i \<notin> used" "ok (stored ! i)"
    and "\<forall>j < i. j \<in> used \<or> \<not> ok (stored ! j)"
  shows "exa_pass ok stored used r = (enrich r (stored ! i), insert i used, [i])"
  using first_unused_least [of i stored 0 used ok] assms
  by (simp add: exa_pass_def)

lemma exa_pass_idle:
  assumes "\<not> needs_exa r \<or> (\<forall>j < length stored. j \<in> used \<or> \<not> ok (stored ! j))"
  shows "exa_pass ok stored used r = (r, used, [])"
proof (cases "needs_exa r")
  case True
  with assms have "first_unused ok used 0 stored = None"
    by (simp add: first_unused_None)
  with True show ?thesis by (simp add: exa_pass_def)
next
  case False
  then show ?thesis by (simp add: exa_pass_def)
qed

lemma titles_match_iff:
  "titles_match lw pt et \<longleftrightarrow>
     lw (case et of None \<Rightarrow> [] | Some t \<Rightarrow> t) \<noteq> []
     \<and> (contains pt (lw (case et of None \<Rightarrow> [] | Some t \<Rightarrow> t))
        \<or> contains (lw (case et of None \<Rightarrow> [] | Some t \<Rightarrow> t)) pt
        \<or> 2 \<le> card (long_words pt \<inter> long_words (lw (case et of None \<Rightarrow> [] | Some t \<Rightarrow> t))))"
proof (cases et)
  case None
  then show ?thesis by (simp add: titles_match_def py_or_def Let_def)
next
  case (Some t)
  then show ?thesis by (cases "t = []") (auto simp add: titles_match_def py_or_def Let_def)
qed

lemma parsed_title_of_eq:
  "parsed_title_of lw r = lw (case title r of None \<Rightarrow> [] | Some t \<Rightarrow> t)"
proof (cases "title r")
  case None
  then show ?thesis by (simp add: parsed_title_of_def py_or_def)
next
  case (Some t)
  then show ?thesis by (cases "t = []") (auto simp add: parsed_title_of_def py_or_def)
qed

lemma enrich_from_entry:
  "description (enrich r e) =
     (if \<not> truthy (description r)
         \<and> truthy (clean_exa_text (py_or (exa_description e) (exa_text e)) 400)
      then clean_exa_text (py_or (exa_description e) (exa_text e)) 400 else description r)"
  "highlights (enrich r e) =
     (if \<not> truthy_list (highlights r)
         \<and> truthy_list (extract_highlights
               (case py_or (exa_text e) (Some []) of None \<Rightarrow> [] | Some t \<Rightarrow> t) 4)
      then extract_highlights (case py_or (exa_text e) (Some []) of None \<Rightarrow> [] | Some t \<Rightarrow> t) 4
      else highlights r)"
  by (simp_all add: enrich_def Let_def del: truthy.simps truthy_list.simps)

text \<open>
  C7, as stated, fails in two ways, both seen on one record with two stored entries.
  Entry 0 has the empty title, which the record's title contains, yet pass 1 does not
  take it: the title test refuses an empty title, and pass 1 takes entry 1. And pass 2
  runs although pass 1 took an entry, because that entry had no image: it takes entry 0.
\<close>

theorem fusion_passes_counterexample:
  "contains (lower []) (parsed_title_of lower (empty_result\<lparr>title := Some (lit ''Red Shoe'')\<rparr>))
   \<and> first_pass lower
     [\<lparr>exa_title = Some [], exa_url = Some (lit ''https://c.example/item''),
        exa_image_url = Some (lit ''https://c.example/item.png''), exa_description = None\<rparr>,
      \<lparr>exa_title = Some (lit ''Red Shoe Sale''), exa_url = Some (lit ''https://a.example/red''),
        exa_image_url = None, exa_description = None\<rparr>]
     {} (empty_result\<lparr>title := Some (lit ''Red Shoe'')\<rparr>)
   = (empty_result\<lparr>title := Some (lit ''Red Shoe''), url := Some (lit ''https://a.example/red'')\<rparr>,
      {1}, [1])
   \<and> fuse_one lower
     [\<lparr>exa_title = Some [], exa_url = Some (lit ''https://c.example/item''),
        exa_image_url = Some (lit ''https://c.example/item.png''), exa_description = None\<rparr>,
      \<lparr>exa_title = Some (lit ''Red Shoe Sale''), exa_url = Some (lit ''https://a.example/red''),
        exa_image_url = None, exa_description = None\<rparr>]
     {} (empty_result\<lparr>title := Some (lit ''Red Shoe'')\<rparr>)
   = (empty_result\<lparr>title := Some (lit ''Red Shoe''), url := Some (lit ''https://a.example/red''),
        image_url := Some (lit ''https://c.example/item.png'')\<rparr>,
      {0, 1}, [1, 0])"
  by code_simp

text \<open>
  C7 (amended). For a record that lacks a url or an image_url, pass 1 takes the first
  entry not yet used whose title is non-empty and, lowercased by \<^verbatim>\<open>str.lower\<close>,
  contains or is contained by the record's lowercased title or shares at least two words
  longer than three characters with it. It fills only fields of the record that are
  missing: the url and the image_url from the entry's, the description from the entry's
  description (or else its text) through the snippet cleaner, the highlights from the
  entry's text through the highlight extractor; it marks the entry used. Pass 2 runs
  whenever the record still lacks a url or an image_url after pass 1, also when pass 1
  took an entry: it takes the first entry not yet used, whatever its title, fills the
  fields still missing from it in the same way and marks it used. This holds for every
  function \<open>lw\<close> in the place of \<^verbatim>\<open>str.lower\<close>.
\<close>

theorem fusion_two_passes:
  "(needs_exa r \<and> i < length stored \<and> i \<notin> used
      \<and> titles_match lw (parsed_title_of lw r) (exa_title (stored ! i))
      \<and> (\<forall>j < i. j \<in> used \<or> \<not> titles_match lw (parsed_title_of lw r) (exa_title (stored ! j))) \<longrightarrow>
      first_pass lw stored used r = (enrich r (stored ! i), insert i used, [i]))
   \<and> (\<not> needs_exa r
       \<or> (\<forall>j < length stored.
             j \<in> used \<or> \<not> titles_match lw (parsed_title_of lw r) (exa_title (stored ! j))) \<longrightarrow>
      first_pass lw stored used r = (r, used, []))
   \<and> (needs_exa r \<and> i < length stored \<and> i \<notin> used \<and> (\<forall>j < i. j \<in> used) \<longrightarrow>
      second_pass stored used r = (enrich r (stored ! i), insert i used, [i]))
   \<and> (\<not> needs_exa r \<or> (\<forall>j < length stored. j \<in> used) \<longrightarrow>
      second_pass stored used r = (r, used, []))
   \<and> fuse_one lw stored used r =
       (case first_pass lw stored used r of
          (r1, used1, taken1) \<Rightarrow>
            (case second_pass stored used1 r1 of
               (r2, used2, taken2) \<Rightarrow> (r2, used2, taken1 @ taken2)))
   \<and> (needs_exa r \<longleftrightarrow> \<not> truthy (url r) \<or> \<not> truthy (image_url r))
   \<and> parsed_title_of lw r = lw (case title r of None \<Rightarrow> [] | Some t \<Rightarrow> t)
   \<and> (titles_match lw pt et \<longleftrightarrow>
        lw (case et of None \<Rightarrow> [] | Some t \<Rightarrow> t) \<noteq> []
        \<and> (contains pt (lw (case et of None \<Rightarrow> [] | Some t \<Rightarrow> t))
           \<or> contains (lw (case et of None \<Rightarrow> [] | Some t \<Rightarrow> t)) pt
           \<or> 2 \<le> card ({w \<in> set (split_ws [] pt). 3 < length w}
                         \<inter> {w \<in> set (split_ws [] (lw (case et of None \<Rightarrow> [] | Some t \<Rightarrow> t))).
                              3 < length w})))
   \<and> url (enrich r e) = (if \<not> truthy (url r) \<and> truthy (exa_url e) then exa_url e else url r)
   \<and> image_url (enrich r e) =
       (if \<not> truthy (image_url r) \<and> truthy (exa_image_url e) then exa_image_url e else image_url r)
   \<and> description (enrich r e) =
       (if \<not> truthy (description r)
           \<and> truthy (clean_exa_text (py_or (exa_description e) (exa_text e)) 400)
        then clean_exa_text (py_or (exa_description e) (exa_text e)) 400 else description r)
   \<and> highlights (enrich r e) =
       (if \<not> truthy_list (highlights r)
           \<and> truthy_list (extract_highlights
                 (case py_or (exa_text e) (Some []) of None \<Rightarrow> [] | Some t \<Rightarrow> t) 4)
        then extract_highlights (case py_or (exa_text e) (Some []) of None \<Rightarrow> [] | Some t \<Rightarrow> t) 4
        else highlights r)
   \<and> title (enrich r e) = title r \<and> why_matches (enrich r e) = why_matches r
   \<and> additional_info (enrich r e) = additional_info r \<and> relevance (enrich r e) = relevance r"
proof -
  have 1: "needs_exa r \<and> i < length stored \<and> i \<notin> used
      \<and> titles_match lw (parsed_title_of lw r) (exa_title (stored ! i))
      \<and> (\<forall>j < i. j \<in> used \<or> \<not> titles_match lw (parsed_title_of lw r) (exa_title (stored ! j))) \<longrightarrow>
      first_pass lw stored used r = (enrich r (stored ! i), insert i used, [i])"
    unfolding first_pass_def
    using exa_pass_taken [of r i stored used "\<lambda>e. titles_match lw (parsed_title_of lw r) (exa_title e)"]
    by blast
  have 2: "\<not> needs_exa r
       \<or> (\<forall>j < length stored.
             j \<in> used \<or> \<not> titles_match lw (parsed_title_of lw r) (exa_title (stored ! j))) \<longrightarrow>
      first_pass lw stored used r = (r, used, [])"
    unfolding first_pass_def
    using exa_pass_idle [of r stored used "\<lambda>e. titles_match lw (parsed_title_of lw r) (exa_title e)"]
    by blast
  have 3: "needs_exa r \<and> i < length stored \<and> i \<notin> used \<and> (\<forall>j < i. j \<in> used) \<longrightarrow>
      second_pass stored used r = (enrich r (stored ! i), insert i used, [i])"
    unfolding second_pass_def
    using exa_pass_taken [of r i stored used "\<lambda>e. True"]
    by blast
  have 4: "\<not> needs_exa r \<or> (\<forall>j < length stored. j \<in> used) \<longrightarrow>
      second_pass stored used r = (r, used, [])"
    unfolding second_pass_def
    using exa_pass_idle [of r stored used "\<lambda>e. True"]
    by blast
  have 5: "fuse_one lw stored used r =
       (case first_pass lw stored used r of
          (r1, used1, taken1) \<Rightarrow>
            (case second_pass stored used1 r1 of
               (r2, used2, taken2) \<Rightarrow> (r2, used2, taken1 @ taken2)))"
    by (simp add: fuse_one_def)
  have 6: "long_words s = {w \<in> set (split_ws [] s). 3 < length w}" for s
    by (auto simp add: long_words_def)
  have 7: "needs_exa r \<longleftrightarrow> \<not> truthy (url r) \<or> \<not> truthy (image_url r)"
    by (simp add: needs_exa_def)
  note 8 = titles_match_iff [of lw pt et, unfolded 6]
  note 9 = parsed_title_of_eq [of lw r]
  note f = enrich_fields(1-6) [of r e]
  note g = enrich_from_entry [of r e]
  from 1 2 3 4 5 7 8 9 f(5) f(6) g(1) g(2) f(1) f(2) f(3) f(4) show ?thesis
    by (intro conjI)
qed

theorem fusion_two_passes_witness:
  "needs_exa (empty_result\<lparr>title := Some (lit ''Red Shoe'')\<rparr>)
   \<and> titles_match lower (parsed_title_of lower (empty_result\<lparr>title := Some (lit ''Red Shoe'')\<rparr>))
       (Some (lit ''Red Shoe Sale''))
   \<and> first_pass lower
       [\<lparr>exa_title = Some (lit ''Red Shoe Sale''), exa_url = Some (lit ''https://a.example/red''),
          exa_image_url = None, exa_description = None\<rparr>]
       {} (empty_result\<lparr>title := Some (lit ''Red Shoe'')\<rparr>)
     = (enrich (empty_result\<lparr>title := Some (lit ''Red Shoe'')\<rparr>)
          \<lparr>exa_title = Some (lit ''Red Shoe Sale''), exa_url = Some (lit ''https://a.example/red''),
            exa_image_url = None, exa_description = None\<rparr>,
        {0}, [0])"
proof -
  let ?r = "empty_result\<lparr>title := Some (lit ''Red Shoe'')\<rparr>"
  let ?e = "\<lparr>exa_title = Some (lit ''Red Shoe Sale''), exa_url = Some (lit ''https://a.example/red''),
          exa_image_url = None, exa_description = None\<rparr>"
  have 1: "needs_exa ?r" by code_simp
  have 2: "titles_match lower (parsed_title_of lower ?r) (Some (lit ''Red Shoe Sale''))" by code_simp
  from fusion_two_passes [of ?r 0 "[?e]" "{}" lower] 1 2 show ?thesis by simp
qed

text \<open>
  C8. The fuser returns as many records as it was given, in the same order: the record
  at each position is the input record of that position, with the same title, match
  rationale, additional information and relevance, and with each of url, image_url,
  description and highlights unchanged if it held a value (a non-empty one, which is what
  the code's test \<^verbatim>\<open>not parsed_result.get(...)\<close> asks). Each stored entry is marked used
  at most once, hence for at most one record. This holds for every function \<open>lw\<close> in
  the place of \<^verbatim>\<open>str.lower\<close>.
\<close>

theorem fuser_frame:
  assumes "fuse lw results stored = (out, used_indices, consumed)"
  shows "length out = length results
    \<and> (\<forall>i < length results.
         title (out ! i) = title (results ! i)
         \<and> why_matches (out ! i) = why_matches (results ! i)
         \<and> additional_info (out ! i) = additional_info (results ! i)
         \<and> relevance (out ! i) = relevance (results ! i)
         \<and> (truthy (url (results ! i)) \<longrightarrow> url (out ! i) = url (results ! i))
         \<and> (truthy (image_url (results ! i)) \<longrightarrow> image_url (out ! i) = image_url (results ! i))
         \<and> (truthy (description (results ! i)) \<longrightarrow> description (out ! i) = description (results ! i))
         \<and> (truthy_list (highlights (results ! i)) \<longrightarrow> highlights (out ! i) = highlights (results ! i)))
    \<and> distinct (map snd consumed)
    \<and> used_indices = set (map snd consumed)
    \<and> (\<forall>p \<in> set consumed. fst p < length results \<and> snd p < length stored)"
  using fuse_props [OF assms] unfolding enriches_def by blast

theorem fuser_frame_witness:
  "fuse lower
     [empty_result\<lparr>title := Some (lit ''Red Shoe''), description := Some (lit ''A shoe'')\<rparr>,
      empty_result\<lparr>title := Some (lit ''Green Scarf''), url := Some (lit ''https://c.example/scarf'')\<rparr>]
     [\<lparr>exa_title = Some (lit ''Blue Hat''), exa_url = Some (lit ''https://b.example/hat''),
        exa_image_url = Some (lit ''https://b.example/hat.png''), exa_description = Some (lit ''A hat'')\<rparr>,
      \<lparr>exa_title = Some (lit ''Red Shoe Sale''), exa_url = Some (lit ''https://a.example/red''),
        exa_image_url = Some (lit ''https://a.example/red.png''), exa_description = Some (lit ''Shoes'')\<rparr>]
   = ([empty_result\<lparr>title := Some (lit ''Red Shoe''), description := Some (lit ''A shoe''),
         url := Some (lit ''https://a.example/red''), image_url := Some (lit ''https://a.example/red.png'')\<rparr>,
       empty_result\<lparr>title := Some (lit ''Green Scarf''), url := Some (lit ''https://c.example/scarf''),
         image_url := Some (lit ''https://b.example/hat.png''), description := Some (lit ''A hat'')\<rparr>],
      {0, 1}, [(0, 1), (1, 0)])
   \<and> distinct (map snd [(0::nat, 1::nat), (1, 0)])
   \<and> length
       [empty_result\<lparr>title := Some (lit ''Red Shoe''), description := Some (lit ''A shoe''),
         url := Some (lit ''https://a.example/red''), image_url := Some (lit ''https://a.example/red.png'')\<rparr>,
       empty_result\<lparr>title := Some (lit ''Green Scarf''), url := Some (lit ''https://c.example/scarf''),
         image_url := Some (lit ''https://b.example/hat.png''), description := Some (lit ''A hat'')\<rparr>]
     = length
       [empty_result\<lparr>title := Some (lit ''Red Shoe''), description := Some (lit ''A shoe'')\<rparr>,
        empty_result\<lparr>title := Some (lit ''Green Scarf''), url := Some (lit ''https://c.example/scarf'')\<rparr>]"
proof -
  have e: "fuse lower
     [empty_result\<lparr>title := Some (lit ''Red Shoe''), description := Some (lit ''A shoe'')\<rparr>,
      empty_result\<lparr>title := Some (lit ''Green Scarf''), url := Some (lit ''https://c.example/scarf'')\<rparr>]
     [\<lparr>exa_title = Some (lit ''Blue Hat''), exa_url = Some (lit ''https://b.example/hat''),
        exa_image_url = Some (lit ''https://b.example/hat.png''), exa_description = Some (lit ''A hat'')\<rparr>,
      \<lparr>exa_title = Some (lit ''Red Shoe Sale''), exa_url = Some (lit ''https://a.example/red''),
        exa_image_url = Some (lit ''https://a.example/red.png''), exa_description = Some (lit ''Shoes'')\<rparr>]
   = ([empty_result\<lparr>title := Some (lit ''Red Shoe''), description := Some (lit ''A shoe''),
         url := Some (lit ''https://a.example/red''), image_url := Some (lit ''https://a.example/red.png'')\<rparr>,
       empty_result\<lparr>title := Some (lit ''Green Scarf''), url := Some (lit ''https://c.example/scarf''),
         image_url := Some (lit ''https://b.example/hat.png''), description := Some (lit ''A hat'')\<rparr>],
      {0, 1}, [(0, 1), (1, 0)])"
    by code_simp
  from fuser_frame [OF e] have "distinct (map snd [(0::nat, 1::nat), (1, 0)])"
    by blast
  with e show ?thesis by simp
qed

section \<open>Properties of the snippet cleaner\<close>

lemma clean_exa_text_steps:
  "clean_exa_text (Some t) n =
     (if t = [] \<or> tidy (re_sub m_link (\<lambda>label. label) t) = [] then None
      else Some (shorten n (tidy (re_sub m_link (\<lambda>label. label) t))))"
  by (simp add: clean_exa_text_def tidy_def squeeze_def shorten_def Let_def split: option.splits)

subsection \<open>Substitution in general\<close>

lemma re_sub_Nil [simp]: "re_sub m repl [] = []"
  by (simp add: re_sub_def)

lemma re_sub_None: "m (c # cs) = None \<Longrightarrow> re_sub m repl (c # cs) = c # re_sub m repl cs"
  by (simp add: re_sub_def)

lemma re_sub_Some:
  "m (c # cs) = Some (x, n) \<Longrightarrow> re_sub m repl (c # cs) = repl x @ re_sub m repl (drop (n - 1) cs)"
  by (simp add: re_sub_def)

lemma set_re_sub:
  assumes "\<And>x. set (repl x) \<subseteq> A"
  shows "set (re_sub m repl s) \<subseteq> set s \<union> A"
proof (induction m s rule: finditer.induct)
  case (1 m)
  then show ?case by simp
next
  case (2 m c cs)
  show ?case
  proof (cases "m (c # cs)")
    case None
    with 2(1) show ?thesis by (auto simp add: re_sub_None)
  next
    case (Some p)
    obtain x n where p: "p = (x, n)" by (cases p)
    from 2(2) [OF Some [unfolded p], of x n] Some p
    have "set (re_sub m repl (drop (n - 1) cs)) \<subseteq> set (drop (n - 1) cs) \<union> A" by simp
    moreover have "set (drop (n - 1) cs) \<subseteq> set cs" by (rule set_drop_subset)
    ultimately show ?thesis using Some p assms [of x] by (auto simp add: re_sub_Some)
  qed
qed

lemma re_sub_no_match: "re_search m s = None \<Longrightarrow> re_sub m repl s = s"
proof (induction s)
  case Nil
  then show ?case by simp
next
  case (Cons c cs)
  then show ?case
    by (cases "m (c # cs)") (auto simp add: re_sub_None split: prod.splits)
qed


subsection \<open>Hashes and stars\<close>

lemma m_hashes_None: "m_hashes s = None \<longleftrightarrow> \<not> prefix [35] s"
  by (simp add: m_hashes_def Let_def)

lemma no_hash_after_sub: "35 \<notin> set (re_sub m_hashes (\<lambda>_. []) s)"
proof (induction "length s" arbitrary: s rule: less_induct)
  case less
  show ?case
  proof (cases s)
    case Nil
    then show ?thesis by simp
  next
    case (Cons c cs)
    show ?thesis
    proof (cases "m_hashes (c # cs)")
      case None
      then have "c \<noteq> 35" by (simp add: m_hashes_None)
      moreover have "35 \<notin> set (re_sub m_hashes (\<lambda>_. []) cs)"
        using less [of cs] Cons by simp
      ultimately show ?thesis using None Cons by (simp add: re_sub_None)
    next
      case (Some p)
      obtain x n where p: "p = (x, n)" by (cases p)
      have "35 \<notin> set (re_sub m_hashes (\<lambda>_. []) (drop (n - 1) cs))"
        using less [of "drop (n - 1) cs"] Cons by simp
      then show ?thesis using Some p Cons by (simp add: re_sub_Some)
    qed
  qed
qed

lemma re_search_hashes: "35 \<notin> set s \<Longrightarrow> re_search m_hashes s = None"
proof (induction s)
  case Nil
  then show ?case by simp
next
  case (Cons c cs)
  then have "m_hashes (c # cs) = None" by (simp add: m_hashes_None)
  with Cons show ?case by simp
qed

lemma map_star_id: "42 \<notin> set s \<Longrightarrow> map (\<lambda>c. if c = 42 then 32 else c) s = s"
  by (induction s) auto

lemma no_star_after_map: "42 \<notin> set (map (\<lambda>c. if c = (42::int) then 32 else c) s)"
  by (induction s) auto

subsection \<open>Backslash n\<close>

lemma m_backslash_n_None: "m_backslash_n s = None \<longleftrightarrow> \<not> prefix [92, 110] s"
  by (simp add: m_backslash_n_def)

lemma m_backslash_n_Some: "m_backslash_n s = Some (x, n) \<Longrightarrow> n = 2 \<and> prefix [92, 110] s"
  by (auto simp add: m_backslash_n_def split: if_splits)

lemma has_backslash_n_Cons:
  "has_backslash_n (c # s) \<longleftrightarrow> prefix [92, 110] (c # s) \<or> has_backslash_n s"
  by (cases s) auto

lemma re_search_backslash_n: "\<not> has_backslash_n s \<Longrightarrow> re_search m_backslash_n s = None"
proof (induction s)
  case Nil
  then show ?case by simp
next
  case (Cons c cs)
  then have "m_backslash_n (c # cs) = None" "\<not> has_backslash_n cs"
    by (simp_all add: m_backslash_n_None has_backslash_n_Cons)
  with Cons show ?case by simp
qed

lemma has_backslash_n_drop: "has_backslash_n (drop k s) \<Longrightarrow> has_backslash_n s"
proof (induction s arbitrary: k)
  case Nil
  then show ?case by simp
next
  case (Cons c cs)
  show ?case
  proof (cases k)
    case 0
    with Cons.prems show ?thesis by simp
  next
    case (Suc j)
    with Cons have "has_backslash_n cs" by simp
    then show ?thesis by (simp add: has_backslash_n_Cons)
  qed
qed

lemma has_backslash_n_append: "has_backslash_n s \<Longrightarrow> has_backslash_n (s @ t)"
proof (induction s rule: has_backslash_n.induct)
  case (1 a b s)
  then show ?case by auto
qed simp_all

lemma has_backslash_n_snoc:
  "has_backslash_n (s @ [c]) \<Longrightarrow> c \<noteq> 110 \<Longrightarrow> has_backslash_n s"
proof (induction s rule: has_backslash_n.induct)
  case (1 a b s)
  then show ?case by auto
next
  case (2 a)
  then show ?case by simp
next
  case 3
  then show ?case by simp
qed

text \<open>What the replacement of backslash-n starts with.\<close>

lemma sub_backslash_n_head:
  assumes a: "prefix [110] (re_sub m_backslash_n (\<lambda>_. [32]) s)"
  shows "prefix [110] s"
proof (cases s)
  case Nil
  with a show ?thesis by simp
next
  case (Cons c cs)
  show ?thesis
  proof (cases "m_backslash_n (c # cs)")
    case None
    with a Cons show ?thesis by (simp add: re_sub_None)
  next
    case (Some p)
    obtain x n where p: "p = (x, n)" by (cases p)
    with a Cons Some show ?thesis by (simp add: re_sub_Some)
  qed
qed

lemma no_backslash_n_after_sub: "\<not> has_backslash_n (re_sub m_backslash_n (\<lambda>_. [32]) s)"
proof (induction "length s" arbitrary: s rule: less_induct)
  case less
  show ?case
  proof (cases s)
    case Nil
    then show ?thesis by simp
  next
    case (Cons c cs)
    show ?thesis
    proof (cases "m_backslash_n (c # cs)")
      case None
      have ih: "\<not> has_backslash_n (re_sub m_backslash_n (\<lambda>_. [32]) cs)"
        using less [of cs] Cons by simp
      have "\<not> prefix [92, 110] (c # re_sub m_backslash_n (\<lambda>_. [32]) cs)"
      proof
        assume "prefix [92, 110] (c # re_sub m_backslash_n (\<lambda>_. [32]) cs)"
        then have "c = 92" "prefix [110] (re_sub m_backslash_n (\<lambda>_. [32]) cs)" by simp_all
        then have "prefix [92, 110] (c # cs)" using sub_backslash_n_head [of cs] by simp
        with None show False by (simp add: m_backslash_n_None)
      qed
      with ih None Cons show ?thesis by (simp add: re_sub_None has_backslash_n_Cons)
    next
      case (Some p)
      obtain x n where p: "p = (x, n)" by (cases p)
      have ih: "\<not> has_backslash_n (re_sub m_backslash_n (\<lambda>_. [32]) (drop (n - 1) cs))"
        using less [of "drop (n - 1) cs"] Cons by simp
      then show ?thesis using Some p Cons by (simp add: re_sub_Some has_backslash_n_Cons)
    qed
  qed
qed


subsection \<open>Whitespace\<close>

lemma squeeze_Nil [simp]: "squeeze [] = []"
  by (simp add: squeeze_def)

lemma squeeze_other: "\<not> isspace c \<Longrightarrow> squeeze (c # cs) = c # squeeze cs"
  by (simp add: squeeze_def re_sub_None m_spaces_def)

lemma squeeze_space: "isspace c \<Longrightarrow> squeeze (c # cs) = 32 # squeeze (dropWhile isspace cs)"
proof -
  assume c: "isspace c"
  then have "m_spaces (c # cs) = Some ((), Suc (length (takeWhile isspace cs)))"
    by (simp add: m_spaces_def)
  then have "squeeze (c # cs) = [32] @ squeeze (drop (Suc (length (takeWhile isspace cs)) - 1) cs)"
    unfolding squeeze_def by (rule re_sub_Some)
  then show ?thesis by (simp add: dropWhile_eq_drop)
qed

lemma not_isspace_consts [simp]:
  "\<not> isspace 110" "\<not> isspace 8230" "\<not> isspace 46" "isspace 32" "\<not> isspace 92"
  by (simp_all add: isspace_def)

lemma dropWhile_head: "dropWhile P xs = [] \<or> \<not> P (hd (dropWhile P xs))"
  using hd_dropWhile [of P xs] by blast

lemma squeeze_head:
  assumes "s = [] \<or> \<not> isspace (hd s)"
  shows "squeeze s = [] \<or> \<not> isspace (hd (squeeze s))"
proof (cases s)
  case Nil
  then show ?thesis by simp
next
  case (Cons c cs)
  with assms have "\<not> isspace c" by simp
  with Cons show ?thesis by (simp add: squeeze_other)
qed

lemma single_spaced_Cons:
  "single_spaced (c # s) \<longleftrightarrow>
     (isspace c \<longrightarrow> c = 32 \<and> (s = [] \<or> \<not> isspace (hd s))) \<and> single_spaced s"
  by (cases s) auto

lemma single_spaced_squeeze: "single_spaced (squeeze s)"
proof (induction "length s" arbitrary: s rule: less_induct)
  case less
  show ?case
  proof (cases s)
    case Nil
    then show ?thesis by simp
  next
    case (Cons c cs)
    show ?thesis
    proof (cases "isspace c")
      case True
      have "length (dropWhile isspace cs) < length s"
        using Cons length_dropWhile_le [of isspace cs] by simp
      then have "single_spaced (squeeze (dropWhile isspace cs))" by (rule less)
      moreover have "squeeze (dropWhile isspace cs) = [] \<or> \<not> isspace (hd (squeeze (dropWhile isspace cs)))"
        using squeeze_head [OF dropWhile_head [of isspace cs]] .
      ultimately show ?thesis using True Cons
        by (simp add: squeeze_space single_spaced_Cons)
    next
      case False
      have "single_spaced (squeeze cs)" using less [of cs] Cons by simp
      with False Cons show ?thesis by (simp add: squeeze_other single_spaced_Cons)
    qed
  qed
qed

lemma squeeze_id: "single_spaced s \<Longrightarrow> squeeze s = s"
proof (induction s)
  case Nil
  then show ?case by simp
next
  case (Cons c cs)
  then have ih: "squeeze cs = cs" by (simp add: single_spaced_Cons)
  show ?case
  proof (cases "isspace c")
    case True
    with Cons.prems have "c = 32" "cs = [] \<or> \<not> isspace (hd cs)"
      by (simp_all add: single_spaced_Cons)
    then have "dropWhile isspace cs = cs" by (cases cs) auto
    with True ih \<open>c = 32\<close> show ?thesis by (simp add: squeeze_space)
  next
    case False
    with ih show ?thesis by (simp add: squeeze_other)
  qed
qed

lemma set_squeeze: "set (squeeze s) \<subseteq> set s \<union> {32}"
  unfolding squeeze_def by (rule set_re_sub) simp

lemma squeeze_head_n:
  assumes a: "prefix [110] (squeeze s)"
  shows "prefix [110] s"
proof (cases s)
  case Nil
  with a show ?thesis by simp
next
  case (Cons c cs)
  show ?thesis
  proof (cases "isspace c")
    case True
    with a Cons show ?thesis by (simp add: squeeze_space)
  next
    case False
    with a Cons show ?thesis by (simp add: squeeze_other)
  qed
qed

lemma squeeze_no_backslash_n: "\<not> has_backslash_n s \<Longrightarrow> \<not> has_backslash_n (squeeze s)"
proof (induction "length s" arbitrary: s rule: less_induct)
  case less
  show ?case
  proof (cases s)
    case Nil
    then show ?thesis by simp
  next
    case (Cons c cs)
    from less.prems Cons have nocs: "\<not> has_backslash_n cs" and nopre: "\<not> prefix [92, 110] (c # cs)"
      by (simp_all add: has_backslash_n_Cons)
    show ?thesis
    proof (cases "isspace c")
      case True
      have "dropWhile isspace cs = drop (length (takeWhile isspace cs)) cs"
        by (rule dropWhile_eq_drop)
      with nocs have "\<not> has_backslash_n (dropWhile isspace cs)"
        using has_backslash_n_drop [of "length (takeWhile isspace cs)" cs] by auto
      moreover have "length (dropWhile isspace cs) < length s"
        using Cons length_dropWhile_le [of isspace cs] by simp
      ultimately have "\<not> has_backslash_n (squeeze (dropWhile isspace cs))"
        using less.hyps by blast
      with True Cons show ?thesis by (simp add: squeeze_space has_backslash_n_Cons)
    next
      case False
      have ih: "\<not> has_backslash_n (squeeze cs)" using less.hyps [of cs] nocs Cons by simp
      have "\<not> prefix [92, 110] (c # squeeze cs)"
      proof
        assume "prefix [92, 110] (c # squeeze cs)"
        then have "c = 92" "prefix [110] (squeeze cs)" by simp_all
        with squeeze_head_n [of cs] have "prefix [92, 110] (c # cs)" by simp
        with nopre show False by simp
      qed
      with ih False Cons show ?thesis by (simp add: squeeze_other has_backslash_n_Cons)
    qed
  qed
qed

subsection \<open>Stripping\<close>

lemma strip_decomp: "\<exists>p q. s = p @ strip s @ q"
proof -
  have "s = takeWhile isspace s @ dropWhile isspace s" by simp
  moreover have "rev (dropWhile isspace s) =
      takeWhile isspace (rev (dropWhile isspace s)) @ dropWhile isspace (rev (dropWhile isspace s))"
    by simp
  then have "dropWhile isspace s =
      rev (dropWhile isspace (rev (dropWhile isspace s))) @ rev (takeWhile isspace (rev (dropWhile isspace s)))"
    by (metis rev_append rev_rev_ident)
  ultimately have "s = takeWhile isspace s @ strip s @ rev (takeWhile isspace (rev (dropWhile isspace s)))"
    by (simp add: strip_def lstrip_def rstrip_def)
  then show ?thesis by blast
qed

lemma trimmed_strip: "trimmed (strip s)"
proof (cases "strip s = []")
  case True
  then show ?thesis by (simp add: trimmed_def)
next
  case False
  let ?l = "dropWhile isspace s"
  let ?r = "dropWhile isspace (rev ?l)"
  have s: "strip s = rev ?r" by (simp add: strip_def lstrip_def rstrip_def)
  with False have r: "?r \<noteq> []" by simp
  then have "\<not> isspace (hd ?r)" using dropWhile_head [of isspace "rev ?l"] by blast
  then have last: "\<not> isspace (last (strip s))" using s r by (simp add: last_rev)
  have "?l = [] \<Longrightarrow> ?r = []"
  proof -
    assume e: "?l = []"
    show "?r = []" unfolding e by simp
  qed
  with r have l: "?l \<noteq> []" by blast
  then have hl: "\<not> isspace (hd ?l)" using dropWhile_head [of isspace s] by blast
  have "rev ?l = takeWhile isspace (rev ?l) @ ?r" by simp
  then have "?l = rev ?r @ rev (takeWhile isspace (rev ?l))" by (metis rev_append rev_rev_ident)
  with r have "hd ?l = hd (rev ?r)" by (metis hd_append2 rev_is_Nil_conv)
  with hl s have "\<not> isspace (hd (strip s))" by simp
  with last show ?thesis by (simp add: trimmed_def)
qed

lemma strip_id:
  assumes "trimmed s"
  shows "strip s = s"
proof (cases "s = []")
  case True
  then show ?thesis by (simp add: strip_def lstrip_def rstrip_def)
next
  case False
  with assms have h: "\<not> isspace (hd s)" and l: "\<not> isspace (last s)" by (simp_all add: trimmed_def)
  from h False have 1: "dropWhile isspace s = s" by (cases s) auto
  from False have "hd (rev s) = last s" by (simp add: hd_rev)
  with l have "\<not> isspace (hd (rev s))" by simp
  moreover from False have "rev s \<noteq> []" by simp
  ultimately have 2: "dropWhile isspace (rev s) = rev s" by (cases "rev s") auto
  from 1 2 show ?thesis by (simp add: strip_def lstrip_def rstrip_def)
qed

lemma strip_same_length: "length (strip s) = length s \<Longrightarrow> strip s = s"
proof -
  assume a: "length (strip s) = length s"
  obtain p q where pq: "s = p @ strip s @ q" using strip_decomp by blast
  then have "length s = length p + length (strip s) + length q" by (metis length_append add.assoc)
  with a have "p = []" "q = []" by simp_all
  with pq show ?thesis by simp
qed

lemma strip_prefix_of_trimmed_head:
  assumes "s = [] \<or> \<not> isspace (hd s)"
  shows "\<exists>q. s = strip s @ q"
proof -
  from assms have "dropWhile isspace s = s" by (cases s) auto
  then have "strip s = rev (dropWhile isspace (rev s))" by (simp add: strip_def lstrip_def rstrip_def)
  moreover have "rev s = takeWhile isspace (rev s) @ dropWhile isspace (rev s)" by simp
  then have "s = rev (dropWhile isspace (rev s)) @ rev (takeWhile isspace (rev s))"
    by (metis rev_append rev_rev_ident)
  ultimately show ?thesis by metis
qed

subsection \<open>Parts of a settled text\<close>

lemma single_spaced_append: "single_spaced (a @ b) \<Longrightarrow> single_spaced a \<and> single_spaced b"
proof (induction a)
  case Nil
  then show ?case by simp
next
  case (Cons c a)
  then have 1: "single_spaced (a @ b)" and 2: "isspace c \<longrightarrow> c = 32 \<and> (a @ b = [] \<or> \<not> isspace (hd (a @ b)))"
    by (simp_all add: single_spaced_Cons)
  from Cons.IH [OF 1] have ih: "single_spaced a" "single_spaced b" by simp_all
  from 2 have "isspace c \<longrightarrow> c = 32 \<and> (a = [] \<or> \<not> isspace (hd a))"
    by (cases a) auto
  with ih show ?case by (simp add: single_spaced_Cons)
qed

lemma single_spaced_snoc:
  assumes "single_spaced x" "x = [] \<or> \<not> isspace (last x)" "\<not> isspace c"
  shows "single_spaced (x @ [c])"
  using assms
proof (induction x)
  case Nil
  then show ?case by simp
next
  case (Cons a x)
  show ?case
  proof (cases x)
    case Nil
    with Cons.prems show ?thesis by simp
  next
    case (Cons b y)
    with Cons.prems Cons.IH have "single_spaced (x @ [c])" by (simp add: single_spaced_Cons)
    with Cons.prems(1) Cons show ?thesis by (simp add: single_spaced_Cons)
  qed
qed

lemma no_backslash_n_part:
  assumes "\<not> has_backslash_n (p @ x @ q)"
  shows "\<not> has_backslash_n x"
proof
  assume "has_backslash_n x"
  then have "has_backslash_n (x @ q)" by (rule has_backslash_n_append)
  then have "has_backslash_n (drop (length p) (p @ x @ q))" by simp
  then have "has_backslash_n (p @ x @ q)" by (rule has_backslash_n_drop)
  with assms show False by simp
qed


lemma settled_tidy: "settled (tidy y)"
proof -
  let ?a = "re_sub m_hashes (\<lambda>_. []) y"
  let ?b = "map (\<lambda>c. if c = 42 then 32 else c) ?a"
  let ?c = "re_sub m_backslash_n (\<lambda>_. [32]) ?b"
  let ?d = "squeeze ?c"
  have a: "35 \<notin> set ?a" by (rule no_hash_after_sub)
  then have b35: "35 \<notin> set ?b" by auto
  have b42: "42 \<notin> set ?b" by (rule no_star_after_map)
  have "set ?c \<subseteq> set ?b \<union> {32}" by (rule set_re_sub) simp
  with b35 b42 have c: "35 \<notin> set ?c" "42 \<notin> set ?c" by auto
  have cn: "\<not> has_backslash_n ?c" by (rule no_backslash_n_after_sub)
  from set_squeeze [of ?c] c have d: "35 \<notin> set ?d" "42 \<notin> set ?d" by auto
  from cn have dn: "\<not> has_backslash_n ?d" by (rule squeeze_no_backslash_n)
  have ds: "single_spaced ?d" by (rule single_spaced_squeeze)
  obtain p q where pq: "?d = p @ strip ?d @ q" using strip_decomp by blast
  have e: "35 \<notin> set (strip ?d)" "42 \<notin> set (strip ?d)"
  proof -
    have "set (strip ?d) \<subseteq> set (p @ strip ?d @ q)" by auto
    with pq have "set (strip ?d) \<subseteq> set ?d" by simp
    with d show "35 \<notin> set (strip ?d)" "42 \<notin> set (strip ?d)" by auto
  qed
  have en: "\<not> has_backslash_n (strip ?d)"
    using dn pq no_backslash_n_part [of p "strip ?d" q] by simp
  have "single_spaced (p @ strip ?d @ q)" using ds pq by simp
  then have "single_spaced (strip ?d @ q)" using single_spaced_append by blast
  then have es: "single_spaced (strip ?d)" using single_spaced_append by blast
  have et: "trimmed (strip ?d)" by (rule trimmed_strip)
  from e en es et show ?thesis by (simp add: settled_def tidy_def)
qed

lemma tidy_id:
  assumes "settled x"
  shows "tidy x = x"
proof -
  from assms have 1: "re_sub m_hashes (\<lambda>_. []) x = x"
    by (simp add: settled_def re_sub_no_match re_search_hashes)
  from assms have 2: "map (\<lambda>c. if c = 42 then 32 else c) x = x"
    by (simp add: settled_def map_star_id)
  from assms have 3: "re_sub m_backslash_n (\<lambda>_. [32]) x = x"
    by (simp add: settled_def re_sub_no_match re_search_backslash_n)
  from assms have 4: "squeeze x = x" by (simp add: settled_def squeeze_id)
  from assms have 5: "strip x = x" by (simp add: settled_def strip_id)
  show ?thesis by (simp add: tidy_def 1 2 3 4 5)
qed

subsection \<open>Truncation\<close>

lemma find_char_Some: "find_char c s = Some i \<Longrightarrow> i < length s \<and> s ! i = c"
proof (induction s arbitrary: i)
  case Nil
  then show ?case by simp
next
  case (Cons x xs)
  then show ?case by (auto split: if_splits)
qed

lemma rfind_char_Some:
  assumes "rfind_char c s = Some p"
  shows "p < length s \<and> s ! p = c"
proof -
  from assms obtain i where i: "find_char c (rev s) = Some i" and p: "p = length s - 1 - i"
    by (auto simp add: rfind_char_def)
  from find_char_Some [OF i] have il: "i < length s" and ic: "rev s ! i = c" by simp_all
  from il have "rev s ! i = s ! (length s - Suc i)" by (rule rev_nth)
  with ic p il show ?thesis by simp
qed

lemma settled_prefix:
  assumes "settled (x @ y)"
  shows "35 \<notin> set x" "42 \<notin> set x" "\<not> has_backslash_n x" "single_spaced x"
proof -
  from assms show "35 \<notin> set x" "42 \<notin> set x" by (simp_all add: settled_def)
  from assms have "\<not> has_backslash_n ([] @ x @ y)" by (simp add: settled_def)
  then show "\<not> has_backslash_n x" by (rule no_backslash_n_part)
  from assms have "single_spaced (x @ y)" by (simp add: settled_def)
  then show "single_spaced x" using single_spaced_append by blast
qed

lemma settled_upto_period:
  assumes c: "settled c" and p: "p < length c" "c ! p = 46"
  shows "settled (take (Suc p) c)"
proof -
  let ?o = "take (Suc p) c"
  have "c = ?o @ drop (Suc p) c" by simp
  with c have "settled (?o @ drop (Suc p) c)" by simp
  note parts = settled_prefix [OF this]
  from p have ne: "?o \<noteq> []" "c \<noteq> []" by auto
  from p have "last ?o = c ! p" by (simp add: take_Suc_conv_app_nth)
  with p have l: "\<not> isspace (last ?o)" by simp
  from ne have "hd ?o = hd c" by (cases c) auto
  moreover from c ne have "\<not> isspace (hd c)" by (simp add: settled_def trimmed_def)
  ultimately have "trimmed ?o" using l by (simp add: trimmed_def)
  with parts show ?thesis by (simp add: settled_def)
qed

lemma strip_take_prefix:
  assumes c: "settled c"
  shows "\<exists>q. c = strip (take n c) @ q"
proof -
  have "take n c = [] \<or> \<not> isspace (hd (take n c))"
  proof (cases "take n c = []")
    case True
    then show ?thesis by simp
  next
    case False
    then have "c \<noteq> []" "hd (take n c) = hd c" by (cases c; cases n; auto)+
    with c show ?thesis by (simp add: settled_def trimmed_def)
  qed
  from strip_prefix_of_trimmed_head [OF this] obtain q where "take n c = strip (take n c) @ q"
    by blast
  then have "c = (strip (take n c) @ q) @ drop n c" by (metis append_take_drop_id)
  then show ?thesis by auto
qed

lemma settled_ellipsis:
  assumes c: "settled c"
  shows "settled (strip (take n c) @ [8230])"
proof -
  let ?x = "strip (take n c)"
  from strip_take_prefix [OF c] obtain q where "c = ?x @ q" by blast
  with c have "settled (?x @ q)" by simp
  note parts = settled_prefix [OF this]
  have t: "trimmed ?x" by (rule trimmed_strip)
  then have xl: "?x = [] \<or> \<not> isspace (last ?x)" by (auto simp add: trimmed_def)
  have 1: "35 \<notin> set (?x @ [8230])" "42 \<notin> set (?x @ [8230])" using parts by simp_all
  have 2: "\<not> has_backslash_n (?x @ [8230])"
    using parts(3) has_backslash_n_snoc [of ?x 8230] by auto
  have 3: "single_spaced (?x @ [8230])"
    using parts(4) xl by (rule single_spaced_snoc) simp
  have "hd (?x @ [8230]) = (if ?x = [] then 8230 else hd ?x)" by (cases ?x) auto
  with t have 4: "trimmed (?x @ [8230])" by (auto simp add: trimmed_def)
  from 1 2 3 4 show ?thesis by (simp add: settled_def)
qed

lemma shorten_cases:
  "shorten n c = c \<and> length c \<le> n
   \<or> (\<exists>p. rfind_char 46 (take n c) = Some p \<and> 120 < p \<and> n < length c
          \<and> shorten n c = take (Suc p) (take n c))
   \<or> (n < length c \<and> shorten n c = strip (take n c) @ [8230]
       \<and> (\<forall>p. rfind_char 46 (take n c) = Some p \<longrightarrow> \<not> 120 < p))"
  by (auto simp add: shorten_def split: option.splits)

lemma shorten_settled:
  assumes c: "settled c" and ne: "c \<noteq> []"
  shows "settled (shorten n c) \<and> shorten n c \<noteq> []"
proof -
  consider (same) "shorten n c = c"
    | (period) p where "rfind_char 46 (take n c) = Some p" "shorten n c = take (Suc p) (take n c)"
    | (ellipsis) "shorten n c = strip (take n c) @ [8230]"
    using shorten_cases [of n c] by blast
  then show ?thesis
  proof cases
    case same
    with c ne show ?thesis by simp
  next
    case period
    from rfind_char_Some [OF period(1)] have p: "p < length (take n c)" "take n c ! p = 46" by simp_all
    then have p': "p < length c" "p < n" "c ! p = 46" by simp_all
    then have "take (Suc p) (take n c) = take (Suc p) c" by (simp add: min_def)
    with period settled_upto_period [OF c p'(1) p'(3)] p'(1) show ?thesis by auto
  next
    case ellipsis
    with settled_ellipsis [OF c, of n] show ?thesis by simp
  qed
qed

lemma shorten_idem:
  assumes c: "settled c"
  shows "shorten n (shorten n c) = shorten n c"
proof -
  consider (same) "shorten n c = c" "length c \<le> n"
    | (period) p where "rfind_char 46 (take n c) = Some p" "shorten n c = take (Suc p) (take n c)"
    | (ellipsis) "n < length c" "shorten n c = strip (take n c) @ [8230]"
        "\<forall>p. rfind_char 46 (take n c) = Some p \<longrightarrow> \<not> 120 < p"
    using shorten_cases [of n c] by blast
  then show ?thesis
  proof cases
    case same
    then show ?thesis by simp
  next
    case period
    from rfind_char_Some [OF period(1)] have "p < length (take n c)" by simp
    then have "length (take (Suc p) (take n c)) \<le> n" by simp
    with period show ?thesis by (simp add: shorten_def)
  next
    case ellipsis
    let ?t = "take n c"
    let ?o = "strip ?t @ [8230]"
    show ?thesis
    proof (cases "length ?o \<le> n")
      case True
      with ellipsis show ?thesis by (simp add: shorten_def)
    next
      case False
      obtain p q where pq: "?t = p @ strip ?t @ q" using strip_decomp by blast
      then have "length ?t = length p + length (strip ?t) + length q"
        by (metis length_append add.assoc)
      then have "length (strip ?t) \<le> length ?t" by simp
      moreover from ellipsis(1) have lt: "length ?t = n" by simp
      ultimately have "length (strip ?t) = length ?t" using False by simp
      then have st: "strip ?t = ?t" by (rule strip_same_length)
      with lt have tk: "take n ?o = ?t" by simp
      from st lt have "n < length ?o" by simp
      with tk st ellipsis(3) have "shorten n ?o = ?o"
        by (auto simp add: shorten_def split: option.splits)
      with ellipsis show ?thesis by simp
    qed
  qed
qed

text \<open>
  C9, as stated, fails: the link replacement can leave a new link behind. A linked image
  (a badge) is cleaned to a text that still holds a link, and cleaning that text again
  changes it.
\<close>

theorem clean_twice_differs:
  "clean_exa_text (Some (lit ''[![logo](https://a.example/logo.png)](https://a.example)'')) 400
     = Some (lit ''![logo](https://a.example)'')
   \<and> clean_exa_text (Some (lit ''![logo](https://a.example)'')) 400 = Some (lit ''!logo'')"
  by code_simp

text \<open>
  C9 (amended). For every input text for which the cleaner returns a string in which the
  link pattern \<^verbatim>\<open>[text](target)\<close> matches nowhere, applying the cleaner again to that
  string returns the same string, whatever the maximum length.
\<close>

theorem clean_idempotent_without_links:
  assumes "clean_exa_text snippet n = Some out"
    and "re_search m_link out = None"
  shows "clean_exa_text (Some out) n = Some out"
proof -
  from assms(1) obtain t where t: "snippet = Some t"
    by (cases snippet) (simp_all add: clean_exa_text_def)
  let ?c = "tidy (re_sub m_link (\<lambda>label. label) t)"
  from assms(1) t have ne: "?c \<noteq> []" and out: "out = shorten n ?c"
    by (auto simp add: clean_exa_text_steps split: if_splits)
  have c: "settled ?c" by (rule settled_tidy)
  from shorten_settled [OF c ne, of n] out have so: "settled out" "out \<noteq> []" by simp_all
  from assms(2) have 1: "re_sub m_link (\<lambda>label. label) out = out" by (rule re_sub_no_match)
  from so have 2: "tidy out = out" by (simp add: tidy_id)
  from shorten_idem [OF c, of n] out have 3: "shorten n out = out" by simp
  from so 1 2 3 show ?thesis by (simp add: clean_exa_text_steps)
qed

theorem clean_idempotent_without_links_witness:
  "clean_exa_text (Some (lit ''## Trail  shoes: see [the *guide*](https://a.example/guide)'')) 400
     = Some (lit ''Trail shoes: see the guide'')
   \<and> re_search m_link (lit ''Trail shoes: see the guide'') = None
   \<and> clean_exa_text (Some (lit ''Trail shoes: see the guide'')) 400
     = Some (lit ''Trail shoes: see the guide'')"
proof -
  have 1: "clean_exa_text (Some (lit ''## Trail  shoes: see [the *guide*](https://a.example/guide)'')) 400
     = Some (lit ''Trail shoes: see the guide'')"
    by code_simp
  have 2: "re_search m_link (lit ''Trail shoes: see the guide'') = None"
    by code_simp
  from clean_idempotent_without_links [OF 1 2] 1 2 show ?thesis by simp
qed


end
